theory Spec2Isabelle
  imports Main "HOL-Library.Product_Lexorder"
begin

section \<open>Data model\<close>

text \<open>
  An XML element as the tree flattener reads it: \<open>e.tag\<close>, \<open>e.text\<close> (Python's
  \<open>None\<close> when the element has no text) and \<open>list(e)\<close>, the children in document order.
  The source imports \<open>lxml\<close> first, and falls back to \<open>xml.etree.ElementTree\<close>. Under
  \<open>lxml\<close> a comment or a processing instruction is a child like any other, without
  children of its own, and its \<open>tag\<close> is not a string but a function (\<open>etree.Comment\<close>,
  \<open>etree.ProcessingInstruction\<close>): \<open>NotStr\<close>. It is equal to no string, it is a key
  of no dictionary of the source, and slicing it raises \<open>TypeError\<close>.
\<close>

datatype tag_value = Str string | NotStr

datatype element = Element (tag: tag_value) (etext: "string option") (children: "element list")

text \<open>
  A Python \<open>dict\<close> keeps its keys in insertion order, so it is an association list with
  distinct keys. A record maps a short tag to a string or to \<open>None\<close>.
\<close>

type_synonym ('k, 'v) dict = "('k \<times> 'v) list"
type_synonym rating_record = "(string, string option) dict"

datatype error =
    ValueError | KeyError | TypeError
  | UnicodeEncodeError | UnicodeDecodeError | XMLSyntaxError

text \<open>\<open>d[k] = v\<close>: an existing key keeps its position, a new key goes last.\<close>

fun dict_set :: "('k, 'v) dict \<Rightarrow> 'k \<Rightarrow> 'v \<Rightarrow> ('k, 'v) dict" where
  "dict_set [] k v = [(k, v)]"
| "dict_set ((k', v') # d) k v =
     (if k' = k then (k, v) # d else (k', v') # dict_set d k v)"

text \<open>\<open>d.update(other)\<close> and \<open>d | other\<close>: the entries of \<open>other\<close> are stored one by one.\<close>

definition dict_update :: "('k, 'v) dict \<Rightarrow> ('k, 'v) dict \<Rightarrow> ('k, 'v) dict" where
  "dict_update d other = foldl (\<lambda>acc (k, v). dict_set acc k v) d other"

definition keys :: "('k, 'v) dict \<Rightarrow> 'k list" where
  "keys d = map fst d"

definition dict_values :: "('k, 'v) dict \<Rightarrow> 'v list" where
  "dict_values d = map snd d"

text \<open>\<open>record.get(k)\<close>: \<open>None\<close> for a missing key and for a key stored with \<open>None\<close>.\<close>

definition get :: "rating_record \<Rightarrow> string \<Rightarrow> string option" where
  "get r k = (case map_of r k of None \<Rightarrow> None | Some v \<Rightarrow> v)"

section \<open>Constants\<close>

definition RATINGS_NAMESPACE :: string where
  "RATINGS_NAMESPACE = ''{http://xbrl.sec.gov/ratings/2015-03-31}''"

text \<open>
  \<open>SEQUENCE_TAGS\<close> is looked up with \<open>element.tag\<close> and its values are compared with
  \<open>e.tag\<close>, so its keys and values are tag values; all of them are strings.
\<close>

definition SEQUENCE_TAGS :: "(tag_value, tag_value) dict" where
  "SEQUENCE_TAGS =
     [(Str (RATINGS_NAMESPACE @ ''OD''), Str (RATINGS_NAMESPACE @ ''ORD'')),
      (Str (RATINGS_NAMESPACE @ ''ISD''), Str (RATINGS_NAMESPACE @ ''IND'')),
      (Str (RATINGS_NAMESPACE @ ''IND''), Str (RATINGS_NAMESPACE @ ''IRD''))]"

definition AGENCY_FIELDS :: "(string, string) dict" where
  "AGENCY_FIELDS =
     [(''RAN'', ''rating_agency_name''),
      (''FCD'', ''file_creation_date'')]"

definition OBLIGOR_FIELDS :: "(string, string) dict" where
  "OBLIGOR_FIELDS =
     [(''OSC'', ''obligor_subclass''),
      (''OIG'', ''obligor_industry_group''),
      (''OBNAME'', ''obligor_name''),
      (''LEI'', ''legal_entity_identifier''),
      (''CIK'', ''central_index_key''),
      (''OI'', ''obligor_identifier''),
      (''OIS'', ''obligor_identifier_schema''),
      (''OIOS'', ''obligor_identifier_other_schema'')]"

definition ISSUER_FIELDS :: "(string, string) dict" where
  "ISSUER_FIELDS =
     [(''SSC'', ''sec_subcategory''),
      (''IG'', ''industry_group''),
      (''ISSNAME'', ''issuer_name''),
      (''ISI'', ''issuer_identifier''),
      (''ISIS'', ''issuer_identifier_scheme''),
      (''ISIOS'', ''issuer_identifier_other_scheme''),
      (''OBT'', ''object_type''),
      (''INSTNAME'', ''instrument_name''),
      (''CUSIP'', ''cusip''),
      (''INI'', ''instrument_identifier''),
      (''INIS'', ''instrument_identifier_scheme''),
      (''INIOS'', ''instrument_identifier_other_scheme''),
      (''IRTD'', ''interest_rate_type_description''),
      (''CR'', ''coupon_rate''),
      (''MD'', ''maturity_date''),
      (''PV'', ''par_value''),
      (''ISUD'', ''issuance_date''),
      (''RODC'', ''other_debt_category'')]"

definition RATING_FIELDS :: "(string, string) dict" where
  "RATING_FIELDS =
     [(''IP'', ''issuer_paid''),
      (''R'', ''rating''),
      (''RAD'', ''rating_action_date''),
      (''RAC'', ''rating_action_classification''),
      (''WST'', ''watch_status''),
      (''ROL'', ''rating_outlook''),
      (''OAN'', ''other_announcement''),
      (''RT'', ''rating_type''),
      (''RST'', ''rating_subtype''),
      (''RTT'', ''rating_type_term'')]"

section \<open>The tree flattener\<close>

text \<open>
  The optional \<open>transformation\<close> callable: it receives the records and the element and
  may raise.
\<close>

type_synonym transformation = "rating_record list \<Rightarrow> element \<Rightarrow> error + rating_record list"

fun esize :: "element \<Rightarrow> nat" where
  "esize (Element t x cs) = Suc (sum_list (map esize cs))"

text \<open>\<open>e.tag[40:]\<close>: the slice of a string, \<open>TypeError\<close> for a tag that is not one.\<close>

fun local_name :: "tag_value \<Rightarrow> error + string" where
  "local_name (Str s) = Inr (drop 40 s)"
| "local_name NotStr = Inl TypeError"

text \<open>
  \<open>element_to_records\<close> and its \<open>while stack:\<close> loop. The stack is the Python list:
  \<open>stack.pop()\<close> takes the last entry, \<open>stack.extend\<close> appends. The loop carries
  \<open>this\<close> and \<open>records\<close>; a recursive call that raises ends the loop with the error.
\<close>

function element_to_records :: "transformation option \<Rightarrow> element \<Rightarrow> error + rating_record list"
  and walk :: "transformation option \<Rightarrow> tag_value option \<Rightarrow> element list \<Rightarrow> rating_record \<Rightarrow> rating_record list
      \<Rightarrow> error + (rating_record \<times> rating_record list)"
where
  "element_to_records transformation element =
     (case walk transformation (map_of SEQUENCE_TAGS (tag element)) (rev (children element)) [] [] of
        Inl err \<Rightarrow> Inl err
      | Inr (this, records) \<Rightarrow>
          (let records' =
             (if map_of SEQUENCE_TAGS (tag element) = None then [this]
              else map (\<lambda>record. dict_update record this) records)
           in case transformation of
                None \<Rightarrow> Inr records'
              | Some f \<Rightarrow> f records' element))"
| "walk transformation sequence_tag stack this records =
     (if stack = [] then Inr (this, records)
      else
        (let e = last stack; stack' = butlast stack in
         if Some (tag e) = sequence_tag then
           (case element_to_records transformation e of
              Inl err \<Rightarrow> Inl err
            | Inr sub \<Rightarrow> walk transformation sequence_tag stack' this (records @ sub))
         else if length (children e) \<noteq> 0 then
           walk transformation sequence_tag (stack' @ rev (children e)) this records
         else
           (case local_name (tag e) of
              Inl err \<Rightarrow> Inl err
            | Inr key \<Rightarrow> walk transformation sequence_tag stack' (dict_set this key (etext e)) records)))"
  by pat_completeness auto

lemma esize_children: "sum_list (map esize (children e)) < esize e"
  by (cases e) simp

lemma esize_butlast_last:
  "stack \<noteq> [] \<Longrightarrow> sum_list (map esize (butlast stack)) + esize (last stack) = sum_list (map esize stack)"
  by (induction stack) auto

lemma esize_pos: "0 < esize e"
  by (cases e) simp

termination element_to_records
proof (relation "measure (\<lambda>x. case x of
          Inl (tr, el) \<Rightarrow> 2 * esize el
        | Inr (tr, st, stack, this, records) \<Rightarrow> 2 * sum_list (map esize stack) + 1)", goal_cases)
  case 1
  show ?case by simp
next
  case (2 transformation element)
  show ?case using esize_children [of element] by (simp add: rev_map [symmetric])
next
  case (3 transformation sequence_tag stack this records)
  then show ?case using esize_butlast_last [of stack] by simp
next
  case (4 transformation sequence_tag stack this records x xa y)
  then show ?case using esize_butlast_last [of stack] esize_pos [of "last stack"] by simp
next
  case (5 transformation sequence_tag stack this records x xa)
  then show ?case
    using esize_butlast_last [of stack] esize_children [of "last stack"]
    by (simp add: rev_map [symmetric])
next
  case (6 transformation sequence_tag stack this records x xa key)
  then show ?case using esize_butlast_last [of stack] esize_pos [of "last stack"] by simp
qed

declare element_to_records.simps [simp del] walk.simps [simp del]

section \<open>The As-Of filter\<close>

text \<open>
  \<open>date.fromisoformat\<close> belongs to the Python library: it is a parameter
  \<open>fromisoformat\<close>, giving \<open>None\<close> where the library raises \<open>ValueError\<close>, into any
  linearly ordered type of dates. \<open>record_rad\<close> is the expression
  \<open>date.fromisoformat(record["RAD"])\<close>: a missing key raises \<open>KeyError\<close>, a key stored
  with \<open>None\<close> (an element without text) raises \<open>TypeError\<close>.
\<close>

definition record_rad :: "(string \<Rightarrow> 'd option) \<Rightarrow> rating_record \<Rightarrow> error + 'd" where
  "record_rad fromisoformat r =
     (case map_of r ''RAD'' of
        None \<Rightarrow> Inl KeyError
      | Some None \<Rightarrow> Inl TypeError
      | Some (Some s) \<Rightarrow>
          (case fromisoformat s of None \<Rightarrow> Inl ValueError | Some d \<Rightarrow> Inr d))"

type_synonym rating_key = "string option \<times> string option \<times> string option"

definition record_key :: "rating_record \<Rightarrow> rating_key" where
  "record_key r = (get r ''RT'', get r ''RST'', get r ''RTT'')"

definition rating_detail_tags :: "tag_value list" where
  "rating_detail_tags = [Str (RATINGS_NAMESPACE @ ''OD''), Str (RATINGS_NAMESPACE @ ''IND'')]"

text \<open>The \<open>for record in records\<close> loop of \<open>filter_records\<close>, carrying \<open>by_type\<close>.\<close>

fun filter_loop :: "(string \<Rightarrow> 'd::linorder option) \<Rightarrow> 'd \<Rightarrow> rating_record list
    \<Rightarrow> (rating_key, rating_record) dict \<Rightarrow> error + (rating_key, rating_record) dict" where
  "filter_loop fromisoformat asof [] by_type = Inr by_type"
| "filter_loop fromisoformat asof (r # records) by_type =
     (case record_rad fromisoformat r of
        Inl err \<Rightarrow> Inl err
      | Inr rad \<Rightarrow>
          if rad > asof then filter_loop fromisoformat asof records by_type
          else
            (case map_of by_type (record_key r) of
               None \<Rightarrow> filter_loop fromisoformat asof records (dict_set by_type (record_key r) r)
             | Some old \<Rightarrow>
                 (case record_rad fromisoformat old of
                    Inl err \<Rightarrow> Inl err
                  | Inr old_rad \<Rightarrow>
                      if old_rad < rad
                      then filter_loop fromisoformat asof records (dict_set by_type (record_key r) r)
                      else filter_loop fromisoformat asof records by_type)))"

definition filter_records :: "(string \<Rightarrow> 'd::linorder option) \<Rightarrow> 'd \<Rightarrow> transformation" where
  "filter_records fromisoformat asof records element =
     (if tag element \<in> set rating_detail_tags then
        (case filter_loop fromisoformat asof records [] of
           Inl err \<Rightarrow> Inl err
         | Inr by_type \<Rightarrow> Inr (dict_values by_type))
      else Inr records)"

definition filter_asof :: "(string \<Rightarrow> 'd::linorder option) \<Rightarrow> 'd \<Rightarrow> transformation" where
  "filter_asof fromisoformat asof = filter_records fromisoformat asof"

section \<open>The record extractor\<close>

text \<open>
  The proper descendants of an element in document order: what the path \<open>.//tag\<close>
  ranges over. \<open>find\<close> gives the first match, \<open>findtext\<close> its text, the empty string
  when the match has none and \<open>None\<close> when nothing matches.
\<close>

fun descendants :: "element \<Rightarrow> element list" where
  "descendants (Element t x cs) = concat (map (\<lambda>c. c # descendants c) cs)"

definition find_elem :: "element \<Rightarrow> string \<Rightarrow> element option" where
  "find_elem root t = List.find (\<lambda>e. tag e = Str t) (descendants root)"

definition findtext :: "element \<Rightarrow> string \<Rightarrow> string option" where
  "findtext root t =
     (case find_elem root t of
        None \<Rightarrow> None
      | Some e \<Rightarrow> Some (case etext e of None \<Rightarrow> [] | Some s \<Rightarrow> s))"

definition xml_to_records :: "(string \<Rightarrow> 'd::linorder option) \<Rightarrow> element \<Rightarrow> string \<Rightarrow> 'd option
    \<Rightarrow> error + rating_record list" where
  "xml_to_records fromisoformat root rating_type asof =
     (if rating_type \<noteq> ''obligor'' \<and> rating_type \<noteq> ''issuer'' then Inl ValueError
      else
        (case (if rating_type = ''obligor'' then find_elem root (RATINGS_NAMESPACE @ ''OD'')
               else find_elem root (RATINGS_NAMESPACE @ ''ISD'')) of
           Some element \<Rightarrow>
             (case element_to_records
                     (case asof of None \<Rightarrow> None | Some d \<Rightarrow> Some (filter_asof fromisoformat d))
                     element of
                Inl err \<Rightarrow> Inl err
              | Inr records \<Rightarrow>
                  (let ran = findtext root (RATINGS_NAMESPACE @ ''RAN'');
                       fcd = findtext root (RATINGS_NAMESPACE @ ''FCD'')
                   in Inr (map (\<lambda>r. dict_set (dict_set r ''RAN'' ran) ''FCD'' fcd) records)))
         | None \<Rightarrow> Inr []))"

section \<open>The CSV export driver\<close>

definition endswith :: "string \<Rightarrow> string \<Rightarrow> bool" where
  "endswith s suffix =
     (length suffix \<le> length s \<and> drop (length s - length suffix) s = suffix)"

text \<open>
  \<open>csv.DictWriter\<close> with its defaults: a key outside \<open>fieldnames\<close> raises
  \<open>ValueError\<close>, a missing key is written as the empty string, and so is \<open>None\<close>.
  A row is the list of its cells.
\<close>

definition dict_to_list :: "string list \<Rightarrow> rating_record \<Rightarrow> error + string list" where
  "dict_to_list fieldnames rowdict =
     (if \<not> set (keys rowdict) \<subseteq> set fieldnames then Inl ValueError
      else Inr (map (\<lambda>key. case get rowdict key of None \<Rightarrow> [] | Some v \<Rightarrow> v) fieldnames))"

text \<open>
  \<open>writer.writerows(records)\<close>: the rows are converted and written one after the other,
  so the rows before a failing one are in the file. The file is opened with the
  platform's encoding: \<open>encodable\<close> says which rows it can encode, and writing another
  raises \<open>UnicodeEncodeError\<close>. The result is the file and the exception that ended
  the call, if any.
\<close>

fun writerows :: "(string list \<Rightarrow> bool) \<Rightarrow> string list \<Rightarrow> rating_record list
    \<Rightarrow> string list list \<Rightarrow> string list list \<times> error option" where
  "writerows encodable fieldnames [] out = (out, None)"
| "writerows encodable fieldnames (r # rs) out =
     (case dict_to_list fieldnames r of
        Inl err \<Rightarrow> (out, Some err)
      | Inr row \<Rightarrow>
          if encodable row then writerows encodable fieldnames rs (out @ [row])
          else (out, Some UnicodeEncodeError))"

text \<open>
  The body of the \<open>try\<close>: \<open>etree.parse\<close> is the parameter \<open>parse\<close> (an element, or
  the exception the library raises on these bytes).
\<close>

definition try_body :: "('b \<Rightarrow> error + element) \<Rightarrow> (string list \<Rightarrow> bool)
    \<Rightarrow> (string \<Rightarrow> 'd::linorder option) \<Rightarrow> string list \<Rightarrow> string \<Rightarrow> 'd option
    \<Rightarrow> 'b \<Rightarrow> string list list \<Rightarrow> string list list \<times> error option" where
  "try_body parse encodable fromisoformat fieldnames rating_type asof file out =
     (case parse file of
        Inl err \<Rightarrow> (out, Some err)
      | Inr tree \<Rightarrow>
          (case xml_to_records fromisoformat tree rating_type asof of
             Inl err \<Rightarrow> (out, Some err)
           | Inr records \<Rightarrow> writerows encodable fieldnames records out))"

text \<open>
  The loop over \<open>zip_file.namelist()\<close>; an archive is the list of its entries, name
  and bytes. Only \<open>UnicodeEncodeError\<close> is caught.
\<close>

fun process_entries :: "('b \<Rightarrow> error + element) \<Rightarrow> (string list \<Rightarrow> bool)
    \<Rightarrow> (string \<Rightarrow> 'd::linorder option) \<Rightarrow> string list \<Rightarrow> string \<Rightarrow> 'd option
    \<Rightarrow> (string \<times> 'b) list \<Rightarrow> string list list \<Rightarrow> string list list \<times> error option" where
  "process_entries parse encodable fromisoformat fieldnames rating_type asof [] out = (out, None)"
| "process_entries parse encodable fromisoformat fieldnames rating_type asof ((filename, file) # rest) out =
     (if \<not> endswith filename ''.xml'' then
        process_entries parse encodable fromisoformat fieldnames rating_type asof rest out
      else
        (case try_body parse encodable fromisoformat fieldnames rating_type asof file out of
           (out', None) \<Rightarrow>
             process_entries parse encodable fromisoformat fieldnames rating_type asof rest out'
         | (out', Some err) \<Rightarrow>
             if err = UnicodeEncodeError then
               process_entries parse encodable fromisoformat fieldnames rating_type asof rest out'
             else (out', Some err)))"

definition fieldnames_of :: "string \<Rightarrow> string list" where
  "fieldnames_of rating_type =
     (if rating_type = ''obligor''
      then keys (dict_update (dict_update AGENCY_FIELDS OBLIGOR_FIELDS) RATING_FIELDS)
      else keys (dict_update (dict_update AGENCY_FIELDS ISSUER_FIELDS) RATING_FIELDS))"

text \<open>
  \<open>ratings_to_csv\<close>: the result is the CSV file, header first (no file at all for an
  invalid rating type), and the exception that ended the run, if any.
\<close>

definition ratings_to_csv :: "('b \<Rightarrow> error + element) \<Rightarrow> (string list \<Rightarrow> bool)
    \<Rightarrow> (string \<Rightarrow> 'd::linorder option) \<Rightarrow> (string \<times> 'b) list \<Rightarrow> string \<Rightarrow> 'd option
    \<Rightarrow> string list list \<times> error option" where
  "ratings_to_csv parse encodable fromisoformat zip_entries rating_type asof =
     (if rating_type \<noteq> ''obligor'' \<and> rating_type \<noteq> ''issuer'' then ([], Some ValueError)
      else if \<not> encodable (fieldnames_of rating_type) then ([], Some UnicodeEncodeError)
      else process_entries parse encodable fromisoformat (fieldnames_of rating_type)
             rating_type asof zip_entries [fieldnames_of rating_type])"

section \<open>Specification-level notions\<close>

text \<open>
  Document order: the nodes one invocation of the flattener handles, from left to right.
  An element carrying the item tag is handled as a whole, another element with children
  is replaced by what its children give, and a leaf stands for itself.
\<close>

fun document_order :: "tag_value option \<Rightarrow> element \<Rightarrow> element list" where
  "document_order item_tag (Element t x cs) =
     (if Some t = item_tag then [Element t x cs]
      else if cs \<noteq> [] then concat (map (document_order item_tag) cs)
      else [Element t x cs])"

text \<open>
  What the loop does with the handled nodes taken in that order: an item is flattened
  and its records appended, a leaf is stored in \<open>this\<close> under its sliced tag, and the
  first node that raises ends the pass.
\<close>

fun collect :: "transformation option \<Rightarrow> tag_value option \<Rightarrow> element list \<Rightarrow> rating_record
    \<Rightarrow> rating_record list \<Rightarrow> error + (rating_record \<times> rating_record list)" where
  "collect tr st [] this records = Inr (this, records)"
| "collect tr st (e # es) this records =
     (if Some (tag e) = st then
        (case element_to_records tr e of
           Inl err \<Rightarrow> Inl err
         | Inr sub \<Rightarrow> collect tr st es this (records @ sub))
      else
        (case local_name (tag e) of
           Inl err \<Rightarrow> Inl err
         | Inr key \<Rightarrow> collect tr st es (dict_set this key (etext e)) records))"

text \<open>
  \<open>newest seen r d\<close>: among the records seen so far, \<open>r\<close> has the latest date \<open>d\<close>
  not after the cutoff within its key, and is the first of them with that date.
  \<open>by_type_inv\<close> is the invariant of the loop of \<open>filter_records\<close>.
\<close>

definition newest :: "(string \<Rightarrow> 'd::linorder option) \<Rightarrow> 'd \<Rightarrow> rating_record list
    \<Rightarrow> rating_record \<Rightarrow> 'd \<Rightarrow> bool" where
  "newest fi asof seen r d =
     (record_rad fi r = Inr d \<and> d \<le> asof \<and>
      (\<forall>r'\<in>set seen. \<forall>d'. record_key r' = record_key r \<and> record_rad fi r' = Inr d' \<and> d' \<le> asof
          \<longrightarrow> d' \<le> d) \<and>
      List.find (\<lambda>r'. record_key r' = record_key r \<and> record_rad fi r' = Inr d) seen = Some r)"

definition by_type_inv :: "(string \<Rightarrow> 'd::linorder option) \<Rightarrow> 'd \<Rightarrow> rating_record list
    \<Rightarrow> (rating_key, rating_record) dict \<Rightarrow> bool" where
  "by_type_inv fi asof seen by_type =
     (distinct (map fst by_type) \<and>
      (\<forall>k r. map_of by_type k = Some r \<longrightarrow> record_key r = k \<and> (\<exists>d. newest fi asof seen r d)) \<and>
      (\<forall>r\<in>set seen. \<forall>d. record_rad fi r = Inr d \<and> d \<le> asof \<longrightarrow> map_of by_type (record_key r) \<noteq> None))"

text \<open>
  Record number \<open>i\<close> of the list has the latest date not after the cutoff among the
  records of its key, and no record before it has its key and its date.
\<close>

definition first_newest :: "(string \<Rightarrow> 'd::linorder option) \<Rightarrow> 'd \<Rightarrow> rating_record list \<Rightarrow> nat \<Rightarrow> bool" where
  "first_newest fi asof records i =
     (\<exists>d. record_rad fi (records ! i) = Inr d \<and> d \<le> asof \<and>
        (\<forall>r'\<in>set records. \<forall>d'. record_key r' = record_key (records ! i) \<and>
             record_rad fi r' = Inr d' \<and> d' \<le> asof \<longrightarrow> d' \<le> d) \<and>
        (\<forall>j<i. \<not> (record_key (records ! j) = record_key (records ! i) \<and>
                    record_rad fi (records ! j) = Inr d)))"

text \<open>
  \<open>fewer xs' xs\<close>: whatever the set of keys, \<open>xs'\<close> has no more records with a key in
  it than \<open>xs\<close> has. \<open>not_after fi d xs\<close>: every record of \<open>xs\<close> has a date, and it is
  not after \<open>d\<close>. \<open>shared_key this\<close> is what updating a record with \<open>this\<close> does
  to its key.
\<close>

definition fewer :: "rating_record list \<Rightarrow> rating_record list \<Rightarrow> bool" where
  "fewer xs' xs =
     (\<forall>Q. length (filter (\<lambda>r. Q (record_key r)) xs') \<le> length (filter (\<lambda>r. Q (record_key r)) xs))"

definition not_after :: "(string \<Rightarrow> 'd::linorder option) \<Rightarrow> 'd \<Rightarrow> rating_record list \<Rightarrow> bool" where
  "not_after fi d xs = (\<forall>r\<in>set xs. \<exists>x. record_rad fi r = Inr x \<and> x \<le> d)"

definition shared_value :: "rating_record \<Rightarrow> string \<Rightarrow> string option \<Rightarrow> string option" where
  "shared_value this k v = (case map_of this k of None \<Rightarrow> v | Some v' \<Rightarrow> v')"

definition shared_key :: "rating_record \<Rightarrow> rating_key \<Rightarrow> rating_key" where
  "shared_key this key =
     (case key of (rt, rst, rtt) \<Rightarrow>
        (shared_value this ''RT'' rt, shared_value this ''RST'' rst, shared_value this ''RTT'' rtt))"

text \<open>
  An element all of whose nodes have string tags: one without comments and processing
  instructions.
\<close>

fun string_tags :: "element \<Rightarrow> bool" where
  "string_tags (Element t x cs) = (t \<noteq> NotStr \<and> list_all string_tags cs)"

text \<open>
  The record a list of leaves with string tags gives when they are stored one after the
  other, and the record of an item that is not itself a sequence container: the fields
  of all the leaves below it.
\<close>

fun short_tag :: "tag_value \<Rightarrow> string" where
  "short_tag (Str s) = drop 40 s"
| "short_tag NotStr = []"

definition store_leaf :: "rating_record \<Rightarrow> element \<Rightarrow> rating_record" where
  "store_leaf this e = dict_set this (short_tag (tag e)) (etext e)"



text \<open>
  The cells \<open>DictWriter\<close> writes for a record whose keys are all field names: the
  value of each field name in turn, the empty string for a missing key or \<open>None\<close>.
\<close>

definition row_of :: "string list \<Rightarrow> rating_record \<Rightarrow> string list" where
  "row_of fieldnames rowdict = map (\<lambda>key. case get rowdict key of None \<Rightarrow> [] | Some v \<Rightarrow> v) fieldnames"

text \<open>
  The rows an archive entry adds to the file: none unless its name ends in \<open>.xml\<close>, it
  parses and the extraction returns; then the rows of the records extracted, in their
  order, up to the first record that cannot be written (a key that is no field name, or
  a row the file cannot encode).
\<close>

definition writable :: "(string list \<Rightarrow> bool) \<Rightarrow> string list \<Rightarrow> rating_record \<Rightarrow> bool" where
  "writable encodable fieldnames r =
     (set (keys r) \<subseteq> set fieldnames \<and> encodable (row_of fieldnames r))"

definition entry_rows :: "('b \<Rightarrow> error + element) \<Rightarrow> (string list \<Rightarrow> bool)
    \<Rightarrow> (string \<Rightarrow> 'd::linorder option) \<Rightarrow> string list \<Rightarrow> string \<Rightarrow> 'd option
    \<Rightarrow> string \<times> 'b \<Rightarrow> string list list" where
  "entry_rows parse encodable fromisoformat fieldnames rating_type asof entry =
     (if \<not> endswith (fst entry) ''.xml'' then []
      else
        (case parse (snd entry) of
           Inl err \<Rightarrow> []
         | Inr tree \<Rightarrow>
             (case xml_to_records fromisoformat tree rating_type asof of
                Inl err \<Rightarrow> []
              | Inr records \<Rightarrow>
                  map (row_of fieldnames) (takeWhile (writable encodable fieldnames) records))))"

section \<open>A date parser and sample inputs\<close>

text \<open>
  One instance of the parameter \<open>fromisoformat\<close>, used where a theorem is applied to
  a concrete input: the calendar format \<open>YYYY-MM-DD\<close> of \<open>date.fromisoformat\<close>, with
  the year, month and day checked as \<open>datetime.date\<close> checks them. Dates are compared
  as Python compares them, by year, then month, then day.
\<close>

type_synonym date = "nat \<times> nat \<times> nat"

definition digit :: "char \<Rightarrow> nat option" where
  "digit c = (if 48 \<le> (of_char c :: nat) \<and> (of_char c :: nat) \<le> 57 then Some (of_char c - 48) else None)"

fun number :: "string \<Rightarrow> nat option" where
  "number [] = Some 0"
| "number (c # cs) = (case digit c of None \<Rightarrow> None
      | Some n \<Rightarrow> (case number cs of None \<Rightarrow> None | Some m \<Rightarrow> Some (n * 10 ^ length cs + m)))"

definition days_in_month :: "nat \<Rightarrow> nat \<Rightarrow> nat" where
  "days_in_month y m =
     (if m = 2 then (if y mod 4 = 0 \<and> (y mod 100 \<noteq> 0 \<or> y mod 400 = 0) then 29 else 28)
      else if m \<in> {4, 6, 9, 11} then 30 else 31)"

definition iso_date :: "string \<Rightarrow> date option" where
  "iso_date s =
     (if length s = 10 \<and> s ! 4 = CHR ''-'' \<and> s ! 7 = CHR ''-'' then
        (case (number (take 4 s), number (take 2 (drop 5 s)), number (drop 8 s)) of
           (Some y, Some m, Some d) \<Rightarrow>
             if 1 \<le> y \<and> 1 \<le> m \<and> m \<le> 12 \<and> 1 \<le> d \<and> d \<le> days_in_month y m
             then Some (y, m, d) else None
         | _ \<Rightarrow> None)
      else None)"

text \<open>A rating record with a rating, a rating action date and a rating type.\<close>

definition rating :: "string \<Rightarrow> string \<Rightarrow> string \<Rightarrow> rating_record" where
  "rating r rad rt = [(''R'', Some r), (''RAD'', Some rad), (''RT'', Some rt)]"

definition OD_element :: element where
  "OD_element = Element (Str (RATINGS_NAMESPACE @ ''OD'')) None []"

definition sample_ratings :: "rating_record list" where
  "sample_ratings =
     [rating ''BBB'' ''2022-06-01'' ''LT'',
      rating ''BBB+'' ''2022-06-01'' ''LT'',
      rating ''A'' ''2023-06-01'' ''LT'',
      rating ''P-2'' ''2021-03-15'' ''ST'']"

text \<open>
  Sample elements in the ratings namespace: an obligor-detail element with two rating
  entries, pass-through structure and two leaves of the same tag; and one where a leaf
  of the container has the tag of a leaf of its item.
\<close>

definition leaf :: "string \<Rightarrow> string \<Rightarrow> element" where "leaf t x = Element (Str (RATINGS_NAMESPACE @ t)) (Some x) []"

definition node :: "string \<Rightarrow> element list \<Rightarrow> element" where "node t cs = Element (Str (RATINGS_NAMESPACE @ t)) None cs"

definition sample_OD :: element where
  "sample_OD =
     node ''OD''
       [leaf ''OBNAME'' ''Obligor One'',
        node ''ORD'' [leaf ''R'' ''BBB'', leaf ''RAD'' ''2022-06-01'', leaf ''OAN'' ''item''],
        node ''INFO'' [leaf ''OAN'' ''first'', leaf ''LEI'' ''X1''],
        leaf ''OAN'' ''second'',
        node ''ORD'' [leaf ''R'' ''A'', leaf ''RAD'' ''2023-06-01'']]"

definition collision_OD :: element where
  "collision_OD =
     node ''OD'' [node ''ORD'' [leaf ''R'' ''BBB'', leaf ''OAN'' ''item''], leaf ''OAN'' ''shared'']"



text \<open>
  Sample documents: an obligor document whose obligor-detail element carries a leaf
  \<open>RAN\<close> of its own, and one with a leaf \<open>NOTE\<close> that no field dictionary has.
\<close>

definition sample_document :: element where
  "sample_document =
     node ''ROCRA''
       [leaf ''RAN'' ''ACME Ratings'',
        leaf ''FCD'' ''2023-01-01'',
        node ''OD''
          [leaf ''OBNAME'' ''Obligor One'',
           leaf ''RAN'' ''inner'',
           node ''ORD'' [leaf ''R'' ''BBB'', leaf ''RAD'' ''2022-06-01''],
           node ''ORD'' [leaf ''R'' ''A'', leaf ''RAD'' ''2023-06-01'']]]"

definition extra_document :: element where
  "extra_document =
     node ''ROCRA''
       [leaf ''RAN'' ''ACME Ratings'',
        leaf ''FCD'' ''2023-01-01'',
        node ''OD''
          [leaf ''OBNAME'' ''Obligor Two'',
           node ''ORD'' [leaf ''R'' ''BB'', leaf ''RAD'' ''2022-01-10''],
           node ''ORD'' [leaf ''R'' ''B'', leaf ''RAD'' ''2023-02-20'', leaf ''NOTE'' ''n'']]]"

text \<open>
  Sample issuer documents: one with two instruments, and one whose issuer-detail
  element has a rating action date of its own beside its instrument.
\<close>

definition issuer_document :: element where
  "issuer_document =
     node ''ROCRA''
       [leaf ''RAN'' ''ACME Ratings'',
        leaf ''FCD'' ''2023-01-01'',
        node ''ISD''
          [leaf ''ISSNAME'' ''Issuer One'',
           node ''IND''
             [leaf ''INSTNAME'' ''Bond A'',
              node ''IRD'' [leaf ''R'' ''BBB'', leaf ''RAD'' ''2022-06-01''],
              node ''IRD'' [leaf ''R'' ''A'', leaf ''RAD'' ''2023-06-01'']],
           node ''IND''
             [leaf ''INSTNAME'' ''Bond B'',
              node ''IRD'' [leaf ''R'' ''BB'', leaf ''RAD'' ''2021-03-15'']]]]"

definition dated_issuer_document :: element where
  "dated_issuer_document =
     node ''ROCRA''
       [leaf ''RAN'' ''ACME Ratings'',
        leaf ''FCD'' ''2023-01-01'',
        node ''ISD''
          [leaf ''RAD'' ''2030-01-01'',
           node ''IND''
             [leaf ''INSTNAME'' ''Bond A'',
              node ''IRD'' [leaf ''R'' ''BBB'', leaf ''RAD'' ''2022-06-01'']]]]"

text \<open>
  Sample parameters of the export: an archive entry is given by what \<open>etree.parse\<close>
  does with it (\<open>parsed\<close>), and the output file can encode every row (\<open>always\<close>), as
  with UTF-8.
\<close>

definition obligor_header :: "string list" where
  "obligor_header =
     [''RAN'', ''FCD'', ''OSC'', ''OIG'', ''OBNAME'', ''LEI'', ''CIK'', ''OI'', ''OIS'', ''OIOS'',
      ''IP'', ''R'', ''RAD'', ''RAC'', ''WST'', ''ROL'', ''OAN'', ''RT'', ''RST'', ''RTT'']"

definition always :: "string list \<Rightarrow> bool" where
  "always row = True"

definition parsed :: "error + element \<Rightarrow> error + element" where
  "parsed outcome = outcome"

definition sample_archive :: "(string \<times> (error + element)) list" where
  "sample_archive = [(''b.xml'', Inr sample_document)]"

section \<open>Dictionaries\<close>

lemma map_of_dict_set: "map_of (dict_set d k v) = (map_of d)(k \<mapsto> v)"
  by (induction d k v rule: dict_set.induct) auto

lemma keys_dict_set:
  "map fst (dict_set d k v) = (if k \<in> fst ` set d then map fst d else map fst d @ [k])"
  by (induction d k v rule: dict_set.induct) auto

lemma distinct_dict_set: "distinct (map fst d) \<Longrightarrow> distinct (map fst (dict_set d k v))"
  by (simp add: keys_dict_set)

lemma find_snoc:
  "List.find P (xs @ [x]) = (case List.find P xs of Some y \<Rightarrow> Some y | None \<Rightarrow> if P x then Some x else None)"
  by (induction xs) auto

lemma dict_update_snoc: "dict_update d (other @ [(k, v)]) = dict_set (dict_update d other) k v"
  by (simp add: dict_update_def)

lemma map_of_dict_update:
  "distinct (map fst other) \<Longrightarrow> map_of (dict_update d other) = map_of d ++ map_of other"
proof (induction other rule: rev_induct)
  case Nil
  then show ?case by (simp add: dict_update_def)
next
  case (snoc x other)
  obtain k v where x: "x = (k, v)" by (cases x)
  have "map_of other k = None"
    using snoc.prems x by (simp add: map_of_eq_None_iff)
  then have "map_of (other @ [(k, v)]) = (map_of other)(k \<mapsto> v)"
    by (auto simp: map_add_def fun_eq_iff split: option.splits)
  moreover have "map_of (dict_update d other) = map_of d ++ map_of other"
    using snoc by simp
  ultimately show ?case
    unfolding x dict_update_snoc map_of_dict_set by (simp only: map_add_upd)
qed

lemma keys_dict_update:
  "distinct (map fst other) \<Longrightarrow> set (keys (dict_update d other)) = set (keys d) \<union> set (keys other)"
  using map_of_dict_update [of other d]
  by (metis dom_map_add dom_map_of_conv_image_fst keys_def set_map sup_commute)

lemma find_append:
  "List.find P (xs @ ys) = (case List.find P xs of Some x \<Rightarrow> Some x | None \<Rightarrow> List.find P ys)"
  by (induction xs) auto

section \<open>The traversal is in document order\<close>

lemma local_name_Inr: "local_name t = Inr k \<Longrightarrow> t \<noteq> NotStr \<and> short_tag t = k"
  by (cases t) auto

lemma local_name_str: "t \<noteq> NotStr \<Longrightarrow> local_name t = Inr (short_tag t)"
  by (cases t) auto

lemma document_order_sel:
  "document_order st e =
     (if Some (tag e) = st then [e]
      else if children e \<noteq> [] then concat (map (document_order st) (children e))
      else [e])"
  by (cases e) simp

lemma walk_collect:
  "walk tr st stack this records =
     collect tr st (concat (map (document_order st) (rev stack))) this records"
proof (induction "sum_list (map esize stack)" arbitrary: stack this records rule: less_induct)
  case less
  show ?case
  proof (cases stack rule: rev_cases)
    case Nil
    then show ?thesis by (simp add: walk.simps)
  next
    case (snoc stack' e)
    have m1: "sum_list (map esize stack') < sum_list (map esize stack)"
      using snoc esize_pos [of e] by simp
    have m2: "sum_list (map esize (stack' @ rev (children e))) < sum_list (map esize stack)"
      using snoc esize_children [of e] by (simp add: rev_map [symmetric])
    show ?thesis
    proof (cases "Some (tag e) = st")
      case True
      then show ?thesis
        using snoc less [OF m1]
        by (subst walk.simps) (simp add: document_order_sel [of st e] split: sum.splits)
    next
      case False
      show ?thesis
      proof (cases "children e = []")
        case True
        then show ?thesis
          using snoc False less [OF m1]
          by (subst walk.simps) (simp add: document_order_sel [of st e] split: sum.splits)
      next
        case nonleaf: False
        then show ?thesis
          using snoc False less [OF m2]
          by (subst walk.simps) (simp add: document_order_sel [of st e])
      qed
    qed
  qed
qed

lemma distinct_store_leaves: "distinct (map fst this) \<Longrightarrow> distinct (map fst (foldl store_leaf this leaves))"
  by (induction leaves arbitrary: this) (auto simp: store_leaf_def distinct_dict_set)


lemma collect_this:
  assumes "collect tr st vs this records = Inr (this', records')"
  shows "this' = foldl store_leaf this (filter (\<lambda>e. Some (tag e) \<noteq> st) vs)"
    and "\<forall>e\<in>set vs. Some (tag e) \<noteq> st \<longrightarrow> tag e \<noteq> NotStr"
  using assms
  by (induction vs arbitrary: this records)
     (auto simp: store_leaf_def dest: local_name_Inr split: if_splits sum.splits)

lemma map_of_store_leaves:
  "map_of (foldl store_leaf this leaves) k =
     (case List.find (\<lambda>e. short_tag (tag e) = k) (rev leaves) of
        Some e \<Rightarrow> Some (etext e) | None \<Rightarrow> map_of this k)"
  by (induction leaves arbitrary: this rule: rev_induct)
     (auto simp: store_leaf_def map_of_dict_set)

lemma document_order_nodes:
  "e \<in> set (document_order st x) \<Longrightarrow> Some (tag e) = st \<or> children e = []"
  by (induction st x rule: document_order.induct) (auto split: if_splits)

lemma walk_this_distinct:
  assumes "walk tr st stack [] [] = Inr (this, records)"
  shows "distinct (map fst this)"
proof -
  have "this = foldl store_leaf [] (filter (\<lambda>e. Some (tag e) \<noteq> st) (concat (map (document_order st) (rev stack))))"
    using assms unfolding walk_collect by (rule collect_this(1))
  then show ?thesis by (simp add: distinct_store_leaves)
qed





lemma sample_OD_walk:
  "walk None (map_of SEQUENCE_TAGS (tag sample_OD)) (rev (children sample_OD)) [] [] =
     Inr ([(''OBNAME'', Some ''Obligor One''), (''OAN'', Some ''second''), (''LEI'', Some ''X1'')],
          [[(''R'', Some ''BBB''), (''RAD'', Some ''2022-06-01''), (''OAN'', Some ''item'')],
           [(''R'', Some ''A''), (''RAD'', Some ''2023-06-01'')]])"
  by code_simp

lemma sample_OD_order:
  "concat (map (document_order (map_of SEQUENCE_TAGS (tag sample_OD))) (children sample_OD)) =
     [leaf ''OBNAME'' ''Obligor One'',
      node ''ORD'' [leaf ''R'' ''BBB'', leaf ''RAD'' ''2022-06-01'', leaf ''OAN'' ''item''],
      leaf ''OAN'' ''first'',
      leaf ''LEI'' ''X1'']
     @ leaf ''OAN'' ''second'' # [node ''ORD'' [leaf ''R'' ''A'', leaf ''RAD'' ''2023-06-01'']]"
  by code_simp


lemma collision_OD_tag: "map_of SEQUENCE_TAGS (tag collision_OD) = Some (Str (RATINGS_NAMESPACE @ ''ORD''))"
  by code_simp

lemma collision_OD_walk:
  "walk None (Some (Str (RATINGS_NAMESPACE @ ''ORD''))) (rev (children collision_OD)) [] [] =
     Inr ([(''OAN'', Some ''shared'')], [[(''R'', Some ''BBB''), (''OAN'', Some ''item'')]])"
  by code_simp

section \<open>The invariant of the As-Of filter\<close>

lemma newest_snoc_keep:
  assumes "newest fi asof seen r0 d0"
    and "record_key r = record_key r0 \<Longrightarrow> \<forall>d. record_rad fi r = Inr d \<longrightarrow> d \<le> asof \<longrightarrow> d \<le> d0"
  shows "newest fi asof (seen @ [r]) r0 d0"
  using assms unfolding newest_def by (simp add: find_snoc ball_Un)

lemma newest_snoc_new:
  assumes "record_rad fi r = Inr d" "d \<le> asof"
    and "\<forall>r'\<in>set seen. \<forall>d'. record_key r' = record_key r \<and> record_rad fi r' = Inr d' \<and> d' \<le> asof \<longrightarrow> d' < d"
  shows "newest fi asof (seen @ [r]) r d"
proof -
  have "List.find (\<lambda>r'. record_key r' = record_key r \<and> record_rad fi r' = Inr d) seen = None"
    using assms by (fastforce simp: find_None_iff)
  then show ?thesis
    using assms unfolding newest_def by (fastforce simp: find_snoc)
qed

lemma inv_skip:
  assumes "by_type_inv fi asof seen bt" "record_rad fi r = Inr rad" "asof < rad"
  shows "by_type_inv fi asof (seen @ [r]) bt"
proof -
  have "newest fi asof (seen @ [r]) r0 d0" if "newest fi asof seen r0 d0" for r0 d0
    using that assms(2,3) by (intro newest_snoc_keep) auto
  then show ?thesis
    using assms unfolding by_type_inv_def
    by (simp del: map_of_eq_Some_iff add: ball_Un) blast
qed

lemma inv_keep:
  assumes "by_type_inv fi asof seen bt" "record_rad fi r = Inr rad"
    "map_of bt (record_key r) = Some old" "record_rad fi old = Inr old_rad" "\<not> old_rad < rad"
  shows "by_type_inv fi asof (seen @ [r]) bt"
proof -
  have "newest fi asof (seen @ [r]) r0 d0"
    if "newest fi asof seen r0 d0" "map_of bt k = Some r0" "record_key r0 = k" for r0 d0 k
  proof (rule newest_snoc_keep [OF that(1)])
    assume "record_key r = record_key r0"
    then have "r0 = old" using that assms(3) by simp
    then have "d0 = old_rad" using that(1) assms(4) by (simp add: newest_def)
    then show "\<forall>d. record_rad fi r = Inr d \<longrightarrow> d \<le> asof \<longrightarrow> d \<le> d0"
      using assms(2,5) by auto
  qed
  then show ?thesis
    using assms unfolding by_type_inv_def
    by (simp del: map_of_eq_Some_iff add: ball_Un) blast
qed

lemma inv_set:
  assumes "by_type_inv fi asof seen bt" "record_rad fi r = Inr rad" "\<not> asof < rad"
    and "case map_of bt (record_key r) of None \<Rightarrow> True
         | Some old \<Rightarrow> \<exists>old_rad. record_rad fi old = Inr old_rad \<and> old_rad < rad"
  shows "by_type_inv fi asof (seen @ [r]) (dict_set bt (record_key r) r)"
proof -
  have new: "newest fi asof (seen @ [r]) r rad"
  proof (rule newest_snoc_new)
    show "record_rad fi r = Inr rad" by fact
    show "rad \<le> asof" using assms(3) by simp
    show "\<forall>r'\<in>set seen. \<forall>d'. record_key r' = record_key r \<and> record_rad fi r' = Inr d' \<and> d' \<le> asof \<longrightarrow> d' < rad"
    proof (intro ballI allI impI)
      fix r' d'
      assume r': "r' \<in> set seen" and h: "record_key r' = record_key r \<and> record_rad fi r' = Inr d' \<and> d' \<le> asof"
      then have "map_of bt (record_key r) \<noteq> None"
        using assms(1) unfolding by_type_inv_def by metis
      then obtain old where old: "map_of bt (record_key r) = Some old" by auto
      then obtain old_rad where o: "record_rad fi old = Inr old_rad" "old_rad < rad"
        using assms(4) by auto
      obtain d0 where "newest fi asof seen old d0" "record_key old = record_key r"
        using assms(1) old unfolding by_type_inv_def by blast
      then have "d' \<le> old_rad"
        using o(1) r' h unfolding newest_def by auto
      then show "d' < rad" using o(2) by simp
    qed
  qed
  have other: "newest fi asof (seen @ [r]) r0 d0"
    if "newest fi asof seen r0 d0" "record_key r0 \<noteq> record_key r" for r0 d0
    using that by (intro newest_snoc_keep) auto
  show ?thesis
    unfolding by_type_inv_def
  proof (intro conjI allI impI ballI)
    show "distinct (map fst (dict_set bt (record_key r) r))"
      using assms(1) by (simp add: by_type_inv_def distinct_dict_set)
  next
    fix k r0
    assume "map_of (dict_set bt (record_key r) r) k = Some r0"
    then have c: "(k = record_key r \<and> r0 = r) \<or> (k \<noteq> record_key r \<and> map_of bt k = Some r0)"
      by (auto simp: map_of_dict_set split: if_splits)
    then show "record_key r0 = k"
      using assms(1) unfolding by_type_inv_def by blast
    show "\<exists>d. newest fi asof (seen @ [r]) r0 d"
      using c new other assms(1) unfolding by_type_inv_def by blast
  next
    fix r' d
    assume "r' \<in> set (seen @ [r])" "record_rad fi r' = Inr d \<and> d \<le> asof"
    then show "map_of (dict_set bt (record_key r) r) (record_key r') \<noteq> None"
      using assms(1) unfolding by_type_inv_def
      by (auto simp: map_of_dict_set simp del: map_of_eq_Some_iff)
  qed
qed

lemma filter_loop_inv:
  assumes "filter_loop fi asof records bt = Inr bt'" "by_type_inv fi asof seen bt"
  shows "by_type_inv fi asof (seen @ records) bt'"
  using assms
proof (induction records arbitrary: bt seen)
  case Nil
  then show ?case by simp
next
  case (Cons r records)
  from Cons.prems(1) obtain rad where rad: "record_rad fi r = Inr rad"
    by (auto split: sum.splits)
  have step: "\<exists>bt1. by_type_inv fi asof (seen @ [r]) bt1 \<and> filter_loop fi asof records bt1 = Inr bt'"
  proof (cases "asof < rad")
    case True
    then show ?thesis
      using Cons.prems rad inv_skip [OF Cons.prems(2) rad] by auto
  next
    case False
    show ?thesis
    proof (cases "map_of bt (record_key r)")
      case None
      then show ?thesis
        using Cons.prems(1) rad False inv_set [OF Cons.prems(2) rad False] by auto
    next
      case (Some old)
      then obtain old_rad where o: "record_rad fi old = Inr old_rad"
        using Cons.prems(1) rad False by (auto split: sum.splits)
      show ?thesis
      proof (cases "old_rad < rad")
        case True
        then show ?thesis
          using Cons.prems(1) rad False Some o inv_set [OF Cons.prems(2) rad False] by auto
      next
        case nl: False
        then show ?thesis
          using Cons.prems(1) rad False Some o inv_keep [OF Cons.prems(2) rad Some o nl] by auto
      qed
    qed
  qed
  then obtain bt1 where "by_type_inv fi asof (seen @ [r]) bt1" "filter_loop fi asof records bt1 = Inr bt'"
    by blast
  from Cons.IH [OF this(2,1)] show ?case by simp
qed

lemma by_type_inv_empty: "by_type_inv fi asof [] []"
  by (simp add: by_type_inv_def)

lemma filter_loop_total:
  assumes "\<forall>r\<in>set records. \<exists>d. record_rad fi r = Inr d"
    and "\<forall>k r. map_of bt k = Some r \<longrightarrow> (\<exists>d. record_rad fi r = Inr d)"
  shows "\<exists>bt'. filter_loop fi asof records bt = Inr bt'"
  using assms
proof (induction records arbitrary: bt)
  case Nil
  then show ?case by simp
next
  case (Cons r records)
  then obtain rad where rad: "record_rad fi r = Inr rad" by auto
  have valid: "\<forall>k r'. map_of (dict_set bt (record_key r) r) k = Some r' \<longrightarrow> (\<exists>d. record_rad fi r' = Inr d)"
    using Cons.prems(2) rad by (auto simp: map_of_dict_set simp del: map_of_eq_Some_iff)
  have rest: "\<forall>r\<in>set records. \<exists>d. record_rad fi r = Inr d"
    using Cons.prems(1) by simp
  note ih1 = Cons.IH [OF rest Cons.prems(2)] and ih2 = Cons.IH [OF rest valid]
  show ?case
  proof (cases "map_of bt (record_key r)")
    case None
    then show ?thesis using rad ih1 ih2 by simp
  next
    case (Some old)
    then obtain od where "record_rad fi old = Inr od" using Cons.prems(2) by blast
    then show ?thesis using rad Some ih1 ih2 by simp
  qed
qed

lemma filter_records_inv:
  assumes "tag element \<in> set rating_detail_tags"
    and "\<forall>r\<in>set records. \<exists>d. record_rad fi r = Inr d"
  shows "\<exists>by_type. filter_records fi asof records element = Inr (map snd by_type)
           \<and> by_type_inv fi asof records by_type"
proof -
  obtain by_type where bt: "filter_loop fi asof records [] = Inr by_type"
    using filter_loop_total [OF assms(2), of "[]" asof] by auto
  from filter_loop_inv [OF bt by_type_inv_empty]
  have "by_type_inv fi asof records by_type" by simp
  then show ?thesis
    using bt assms(1) by (auto simp: filter_records_def dict_values_def)
qed

lemma by_type_inv_values:
  assumes "by_type_inv fi asof records by_type"
  shows "map record_key (map snd by_type) = map fst by_type"
    and "r \<in> set (map snd by_type) \<Longrightarrow> \<exists>d. newest fi asof records r d"
    and "r' \<in> set records \<Longrightarrow> record_rad fi r' = Inr d' \<Longrightarrow> d' \<le> asof \<Longrightarrow>
           record_key r' \<in> record_key ` set (map snd by_type)"
proof -
  have d: "distinct (map fst by_type)" using assms by (simp add: by_type_inv_def)
  have e: "record_key r0 = k \<and> (\<exists>d. newest fi asof records r0 d)" if "(k, r0) \<in> set by_type" for k r0
    using assms that d unfolding by_type_inv_def by (metis map_of_is_SomeI)
  show m: "map record_key (map snd by_type) = map fst by_type"
    using e by (auto simp: map_eq_conv)
  show "r \<in> set (map snd by_type) \<Longrightarrow> \<exists>d. newest fi asof records r d"
    using e by auto
  assume "r' \<in> set records" "record_rad fi r' = Inr d'" "d' \<le> asof"
  then have "map_of by_type (record_key r') \<noteq> None"
    using assms unfolding by_type_inv_def by blast
  then have "record_key r' \<in> fst ` set by_type"
    by (simp add: map_of_eq_None_iff)
  then show "record_key r' \<in> record_key ` set (map snd by_type)"
    using m by (metis image_set)
qed

lemma filter_records_summary:
  assumes "tag element \<in> set rating_detail_tags"
    and "\<forall>r\<in>set records. \<exists>d. record_rad fi r = Inr d"
  shows "\<exists>out. filter_records fi asof records element = Inr out \<and>
     distinct (map record_key out) \<and>
     (\<forall>r\<in>set out. \<exists>d. newest fi asof records r d) \<and>
     (\<forall>r'\<in>set records. \<forall>d'. record_rad fi r' = Inr d' \<and> d' \<le> asof \<longrightarrow>
         record_key r' \<in> record_key ` set out)"
proof -
  obtain by_type where out: "filter_records fi asof records element = Inr (map snd by_type)"
    and inv: "by_type_inv fi asof records by_type"
    using filter_records_inv [OF assms] by blast
  have "distinct (map fst by_type)" using inv by (simp add: by_type_inv_def)
  then have "distinct (map record_key (map snd by_type))"
    by (simp only: by_type_inv_values(1) [OF inv])
  then show ?thesis
    using out by_type_inv_values(2,3) [OF inv] by blast
qed

lemma iso_date_samples:
  "iso_date ''2022-06-01'' = Some (2022, 6, 1)"
  "iso_date ''2023-06-01'' = Some (2023, 6, 1)"
  "iso_date ''2021-03-15'' = Some (2021, 3, 15)"
  by (simp_all add: iso_date_def digit_def days_in_month_def)

lemma sample_ratings_rad:
  "map (record_rad iso_date) sample_ratings =
     [Inr (2022, 6, 1), Inr (2022, 6, 1), Inr (2023, 6, 1), Inr (2021, 3, 15)]"
  by (simp add: sample_ratings_def rating_def record_rad_def iso_date_samples)

lemma sample_ratings_valid: "\<forall>r\<in>set sample_ratings. \<exists>d. record_rad iso_date r = Inr d"
  using sample_ratings_rad by (simp add: sample_ratings_def)

lemma OD_element_detail: "tag OD_element \<in> set rating_detail_tags"
  by (simp add: OD_element_def rating_detail_tags_def)

lemma filter_sample:
  "filter_records iso_date (2022, 12, 31) sample_ratings OD_element =
     Inr [rating ''BBB'' ''2022-06-01'' ''LT'', rating ''P-2'' ''2021-03-15'' ''ST'']"
  by (simp add: filter_records_def rating_detail_tags_def OD_element_def RATINGS_NAMESPACE_def
      sample_ratings_def rating_def record_rad_def iso_date_samples record_key_def get_def
      dict_values_def)

lemma sample_dates_le: "((2021, 12, 31) :: date) \<le> (2022, 12, 31)"
  by simp

section \<open>The flattener returns when every tag is a string and there is no transformation\<close>

lemma string_tags_sel: "string_tags e = (tag e \<noteq> NotStr \<and> list_all string_tags (children e))"
  by (cases e) simp

lemma flatten_total:
  "tr = None \<Longrightarrow> string_tags element \<Longrightarrow> \<exists>rs. element_to_records tr element = Inr rs"
  "tr = None \<Longrightarrow> list_all string_tags stack \<Longrightarrow> \<exists>p. walk tr st stack this records = Inr p"
proof (induction tr element and tr st stack this records rule: element_to_records_walk.induct)
  case (1 transformation element)
  have "list_all string_tags (rev (children element))"
    using "1.prems"(2) string_tags_sel [of element] by (simp add: list_all_iff)
  from "1.IH" [OF "1.prems"(1) this] show ?case
    using "1.prems"(1)
    by (subst element_to_records.simps) (auto simp: Let_def split: sum.splits)
next
  case (2 transformation sequence_tag stack this records)
  show ?case
  proof (cases "stack = []")
    case True
    then show ?thesis by (subst walk.simps) simp
  next
    case False
    then have last_ok: "string_tags (last stack)" and rest_ok: "list_all string_tags (butlast stack)"
      using "2.prems"(2) by (auto simp: list_all_iff dest: in_set_butlastD)
    show ?thesis
    proof (cases "Some (tag (last stack)) = sequence_tag")
      case True
      from "2.IH"(1) [OF False refl refl True "2.prems"(1) last_ok] obtain sub where
        sub: "element_to_records transformation (last stack) = Inr sub" by blast
      from "2.IH"(2) [OF False refl refl True sub "2.prems"(1) rest_ok] show ?thesis
        using False True sub by (subst walk.simps) (simp add: Let_def)
    next
      case nt: False
      show ?thesis
      proof (cases "length (children (last stack)) \<noteq> 0")
        case True
        have "list_all string_tags (butlast stack @ rev (children (last stack)))"
          using rest_ok last_ok string_tags_sel [of "last stack"] by (auto simp: list_all_iff)
        from "2.IH"(3) [OF False refl refl nt True "2.prems"(1) this] show ?thesis
          using False nt True by (subst walk.simps) (simp add: Let_def)
      next
        case leaf: False
        have key: "local_name (tag (last stack)) = Inr (short_tag (tag (last stack)))"
          using last_ok string_tags_sel [of "last stack"] by (simp add: local_name_str)
        from "2.IH"(4) [OF False refl refl nt leaf key "2.prems"(1) rest_ok] show ?thesis
          using False nt leaf key by (subst walk.simps) (simp add: Let_def)
      qed
    qed
  qed
qed

section \<open>The record extractor and the export loop\<close>

lemma find_elem_None:
  "find_elem root t = None \<longleftrightarrow> (\<forall>e\<in>set (descendants root). tag e \<noteq> Str t)"
  by (auto simp: find_elem_def find_None_iff)

lemma sample_document_records:
  "xml_to_records iso_date sample_document ''obligor'' None =
     Inr [[(''R'', Some ''BBB''), (''RAD'', Some ''2022-06-01''),
           (''OBNAME'', Some ''Obligor One''), (''RAN'', Some ''ACME Ratings''),
           (''FCD'', Some ''2023-01-01'')],
          [(''R'', Some ''A''), (''RAD'', Some ''2023-06-01''),
           (''OBNAME'', Some ''Obligor One''), (''RAN'', Some ''ACME Ratings''),
           (''FCD'', Some ''2023-01-01'')]]"
  by code_simp

lemma sample_document_no_ISD:
  "\<forall>e\<in>set (sample_document # descendants sample_document). tag e \<noteq> Str (RATINGS_NAMESPACE @ ''ISD'')"
  by code_simp

lemma sample_document_findtext:
  "findtext sample_document (RATINGS_NAMESPACE @ ''RAN'') = Some ''ACME Ratings''"
  "findtext sample_document (RATINGS_NAMESPACE @ ''FCD'') = Some ''2023-01-01''"
  by code_simp+

lemma dict_to_list_row: "dict_to_list fns r = (if set (keys r) \<subseteq> set fns then Inr (row_of fns r) else Inl ValueError)"
  by (simp add: dict_to_list_def row_of_def)

lemma get_missing: "k \<notin> set (keys r) \<Longrightarrow> get r k = None"
  by (simp add: get_def keys_def map_of_eq_None_iff [THEN iffD2])

lemma process_entries_append:
  "process_entries parse enc fi fns rt asof (before @ rest) out =
     (case process_entries parse enc fi fns rt asof before out of
        (out', None) \<Rightarrow> process_entries parse enc fi fns rt asof rest out'
      | (out', Some err) \<Rightarrow> (out', Some err))"
proof (induction before arbitrary: out)
  case Nil
  then show ?case by simp
next
  case (Cons entry before)
  obtain filename bytes where entry: "entry = (filename, bytes)" by (cases entry)
  show ?case
    unfolding entry
    by (simp add: Cons split: prod.splits option.splits)
qed

lemma ratings_to_csv_split:
  assumes "rating_type = ''obligor'' \<or> rating_type = ''issuer''"
    and "encodable (fieldnames_of rating_type)"
    and "process_entries parse encodable fi (fieldnames_of rating_type) rating_type asof
           before [fieldnames_of rating_type] = (out, None)"
  shows "ratings_to_csv parse encodable fi (before @ rest) rating_type asof =
           process_entries parse encodable fi (fieldnames_of rating_type) rating_type asof rest out"
  using assms by (auto simp: ratings_to_csv_def process_entries_append)

lemma writerows_prefix:
  assumes "\<forall>r\<in>set rs. set (keys r) \<subseteq> set fns \<and> enc (row_of fns r)"
  shows "writerows enc fns (rs @ rest) out = writerows enc fns rest (out @ map (row_of fns) rs)"
  using assms by (induction rs arbitrary: out) (auto simp: dict_to_list_row)

lemma writerows_written:
  "fst (writerows enc fns rs out) = out @ map (row_of fns) (takeWhile (writable enc fns) rs)"
  by (induction rs arbitrary: out) (auto simp: dict_to_list_row writable_def)

lemma try_body_written:
  "endswith filename ''.xml'' \<Longrightarrow>
   fst (try_body parse enc fi fns rt asof bytes out) =
     out @ entry_rows parse enc fi fns rt asof (filename, bytes)"
  by (simp add: try_body_def entry_rows_def writerows_written split: sum.splits)

lemma process_entries_written:
  "\<exists>n\<le>length entries.
     fst (process_entries parse enc fi fns rt asof entries out) =
       out @ concat (map (entry_rows parse enc fi fns rt asof) (take n entries)) \<and>
     (snd (process_entries parse enc fi fns rt asof entries out) = None \<longrightarrow> n = length entries)"
proof (induction entries arbitrary: out)
  case Nil
  then show ?case by simp
next
  case (Cons entry entries)
  obtain filename bytes where entry: "entry = (filename, bytes)" by (cases entry)
  show ?case
  proof (cases "endswith filename ''.xml''")
    case False
    then have skip: "process_entries parse enc fi fns rt asof (entry # entries) out =
        process_entries parse enc fi fns rt asof entries out"
      and none: "entry_rows parse enc fi fns rt asof entry = []"
      by (simp_all add: entry entry_rows_def)
    from Cons [of out] obtain n where n: "n \<le> length entries"
      "fst (process_entries parse enc fi fns rt asof entries out) =
         out @ concat (map (entry_rows parse enc fi fns rt asof) (take n entries))"
      "snd (process_entries parse enc fi fns rt asof entries out) = None \<longrightarrow> n = length entries"
      by (elim exE conjE)
    have "Suc n \<le> length (entry # entries)" using n(1) by simp
    moreover have "fst (process_entries parse enc fi fns rt asof entries out) =
         out @ concat (map (entry_rows parse enc fi fns rt asof) (take (Suc n) (entry # entries)))"
      by (simp only: n(2) take_Suc_Cons list.map concat.simps none append_Nil)
    moreover have "snd (process_entries parse enc fi fns rt asof entries out) = None
         \<longrightarrow> Suc n = length (entry # entries)"
      using n(3) by simp
    ultimately show ?thesis
      unfolding skip by (intro exI [of _ "Suc n"] conjI)
  next
    case True
    obtain out' e where body: "try_body parse enc fi fns rt asof bytes out = (out', e)"
      by (cases "try_body parse enc fi fns rt asof bytes out")
    have out': "out' = out @ entry_rows parse enc fi fns rt asof entry"
      using try_body_written [OF True, of parse enc fi fns rt asof bytes out] body entry by simp
    show ?thesis
    proof (cases "e = None \<or> e = Some UnicodeEncodeError")
      case continue: True
      then have step: "process_entries parse enc fi fns rt asof (entry # entries) out =
          process_entries parse enc fi fns rt asof entries out'"
        using True body by (auto simp: entry)
      from Cons [of out'] obtain n where n: "n \<le> length entries"
        "fst (process_entries parse enc fi fns rt asof entries out') =
           out' @ concat (map (entry_rows parse enc fi fns rt asof) (take n entries))"
        "snd (process_entries parse enc fi fns rt asof entries out') = None \<longrightarrow> n = length entries"
        by (elim exE conjE)
      have "Suc n \<le> length (entry # entries)" using n(1) by simp
      moreover have "fst (process_entries parse enc fi fns rt asof entries out') =
           out @ concat (map (entry_rows parse enc fi fns rt asof) (take (Suc n) (entry # entries)))"
        using n(2) unfolding out' by simp
      moreover have "snd (process_entries parse enc fi fns rt asof entries out') = None
           \<longrightarrow> Suc n = length (entry # entries)"
        using n(3) by simp
      ultimately show ?thesis
        unfolding step by (intro exI [of _ "Suc n"] conjI)
    next
      case abort: False
      then obtain err where err: "e = Some err" "err \<noteq> UnicodeEncodeError" by auto
      then have "process_entries parse enc fi fns rt asof (entry # entries) out = (out', Some err)"
        using True body by (simp add: entry)
      then have "fst (process_entries parse enc fi fns rt asof (entry # entries) out) =
           out @ concat (map (entry_rows parse enc fi fns rt asof) (take (Suc 0) (entry # entries)))"
        and "snd (process_entries parse enc fi fns rt asof (entry # entries) out) \<noteq> None"
        using out' by simp_all
      moreover have "Suc 0 \<le> length (entry # entries)" by simp
      ultimately show ?thesis by (intro exI [of _ "Suc 0"] conjI) auto
    qed
  qed
qed

lemma row_of_cells:
  "length (row_of fns r) = length fns \<and>
   (\<forall>i<length fns. row_of fns r ! i = (case get r (fns ! i) of None \<Rightarrow> [] | Some v \<Rightarrow> v))"
  by (simp add: row_of_def)

lemma fieldnames_of_keys:
  "fieldnames_of rating_type =
     keys AGENCY_FIELDS
     @ keys (if rating_type = ''obligor'' then OBLIGOR_FIELDS else ISSUER_FIELDS)
     @ keys RATING_FIELDS"
proof -
  have "keys (dict_update (dict_update AGENCY_FIELDS OBLIGOR_FIELDS) RATING_FIELDS)
          = keys AGENCY_FIELDS @ keys OBLIGOR_FIELDS @ keys RATING_FIELDS"
    by code_simp
  moreover have "keys (dict_update (dict_update AGENCY_FIELDS ISSUER_FIELDS) RATING_FIELDS)
          = keys AGENCY_FIELDS @ keys ISSUER_FIELDS @ keys RATING_FIELDS"
    by code_simp
  ultimately show ?thesis by (simp add: fieldnames_of_def)
qed

lemma obligor_fieldnames: "fieldnames_of ''obligor'' = obligor_header"
  by code_simp

lemma xml_suffix: "endswith ''a.xml'' ''.xml''"
  by code_simp

lemma always_fieldnames: "always (fieldnames_of ''obligor'')"
  by (simp add: always_def)

lemma obligor_valid: "''obligor'' = ''obligor'' \<or> ''obligor'' = ''issuer''"
  by simp

lemma extra_document_records:
  "xml_to_records iso_date extra_document ''obligor'' None =
     Inr ([[(''R'', Some ''BB''), (''RAD'', Some ''2022-01-10''), (''OBNAME'', Some ''Obligor Two''),
            (''RAN'', Some ''ACME Ratings''), (''FCD'', Some ''2023-01-01'')]]
          @ [(''R'', Some ''B''), (''RAD'', Some ''2023-02-20''), (''NOTE'', Some ''n''),
             (''OBNAME'', Some ''Obligor Two''), (''RAN'', Some ''ACME Ratings''),
             (''FCD'', Some ''2023-01-01'')] # [])"
  by code_simp

lemma extra_document_first:
  "\<forall>r'\<in>set [[(''R'', Some ''BB''), (''RAD'', Some ''2022-01-10''), (''OBNAME'', Some ''Obligor Two''),
            (''RAN'', Some ''ACME Ratings''), (''FCD'', Some ''2023-01-01'')]].
      set (keys r') \<subseteq> set (fieldnames_of ''obligor'') \<and> always (row_of (fieldnames_of ''obligor'') r')"
  by (simp add: always_def obligor_fieldnames obligor_header_def keys_def)

lemma extra_document_second:
  "\<not> set (keys [(''R'', Some ''B''), (''RAD'', Some ''2023-02-20''), (''NOTE'', Some ''n''),
             (''OBNAME'', Some ''Obligor Two''), (''RAN'', Some ''ACME Ratings''),
             (''FCD'', Some ''2023-01-01'')]) \<subseteq> set (fieldnames_of ''obligor'')"
  by (simp add: obligor_fieldnames obligor_header_def keys_def)

lemma extra_document_row:
  "[obligor_header] @ map (row_of obligor_header)
      [[(''R'', Some ''BB''), (''RAD'', Some ''2022-01-10''), (''OBNAME'', Some ''Obligor Two''),
        (''RAN'', Some ''ACME Ratings''), (''FCD'', Some ''2023-01-01'')]] =
   [obligor_header,
    [''ACME Ratings'', ''2023-01-01'', [], [], ''Obligor Two'', [], [], [], [], [],
     [], ''BB'', ''2022-01-10'', [], [], [], [], [], [], []]]"
  by code_simp

section \<open>The cutoff along the tree\<close>



lemma fewer_refl: "fewer xs xs"
  by (simp add: fewer_def)

lemma fewer_append: "fewer xs' xs \<Longrightarrow> fewer ys' ys \<Longrightarrow> fewer (xs' @ ys') (xs @ ys)"
  by (simp add: fewer_def add_mono)

lemma fewer_map:
  assumes "\<forall>r. record_key (h r) = g (record_key r)" and "fewer xs' xs"
  shows "fewer (map h xs') (map h xs)"
proof -
  have key: "length (filter (\<lambda>r. Q (record_key r)) (map h ys)) = length (filter (\<lambda>r. (\<lambda>k. Q (g k)) (record_key r)) ys)"
    for Q ys
    using assms(1) by (simp add: filter_map comp_def)
  have "length (filter (\<lambda>r. Q (record_key r)) (map h xs')) \<le> length (filter (\<lambda>r. Q (record_key r)) (map h xs))"
    for Q
    unfolding key
    using assms(2) unfolding fewer_def by (rule spec)
  then show ?thesis
    unfolding fewer_def by blast
qed

lemma fewer_key:
  "fewer xs' xs \<Longrightarrow> length (filter (\<lambda>r. record_key r = k) xs') \<le> length (filter (\<lambda>r. record_key r = k) xs)"
  unfolding fewer_def by (drule spec [of _ "\<lambda>k'. k' = k"]) simp

lemma length_filter_distinct_pred:
  assumes "distinct (map f xs)"
  shows "length (filter (\<lambda>x. Q (f x)) xs) = card {k \<in> f ` set xs. Q k}"
proof -
  have "length (filter (\<lambda>x. Q (f x)) xs) = length (filter Q (map f xs))"
    by (simp add: filter_map comp_def)
  also have "\<dots> = card (set (filter Q (map f xs)))"
    by (rule distinct_card [symmetric, OF distinct_filter [OF assms]])
  also have "set (filter Q (map f xs)) = {k \<in> f ` set xs. Q k}"
    by auto
  finally show ?thesis .
qed

lemma filter_loop_valid:
  "filter_loop fi d rs bt = Inr bt' \<Longrightarrow> \<forall>r\<in>set rs. \<exists>x. record_rad fi r = Inr x"
  by (induction rs arbitrary: bt) (auto split: sum.splits if_splits option.splits)

lemma filter_records_fewer:
  assumes "tag element \<in> set rating_detail_tags" and "d' \<le> d"
    and "filter_records fi d rs element = Inr out"
  shows "\<exists>out'. filter_records fi d' rs element = Inr out' \<and> fewer out' out \<and>
           not_after fi d out \<and> not_after fi d' out'"
proof -
  have valid: "\<forall>r\<in>set rs. \<exists>x. record_rad fi r = Inr x"
    using assms(1,3) filter_loop_valid [of fi d rs "[]"]
    by (auto simp: filter_records_def split: sum.splits)
  obtain out0 where out0: "filter_records fi d rs element = Inr out0"
    and dist: "distinct (map record_key out0)"
    and new: "\<forall>r\<in>set out0. \<exists>x. newest fi d rs r x"
    and all: "\<forall>r'\<in>set rs. \<forall>x. record_rad fi r' = Inr x \<and> x \<le> d \<longrightarrow>
         record_key r' \<in> record_key ` set out0"
    using filter_records_summary [OF assms(1) valid, of d] by blast
  have eq: "out0 = out" using out0 assms(3) by simp
  obtain out' where out': "filter_records fi d' rs element = Inr out'"
    and dist': "distinct (map record_key out')"
    and new': "\<forall>r\<in>set out'. \<exists>x. newest fi d' rs r x"
    using filter_records_summary [OF assms(1) valid, of d'] by blast
  have sub: "record_key ` set out' \<subseteq> record_key ` set out"
  proof
    fix k assume "k \<in> record_key ` set out'"
    then obtain r where r: "r \<in> set out'" "record_key r = k" by auto
    then obtain x where n: "newest fi d' rs r x" using new' by blast
    then have "r \<in> set rs" "record_rad fi r = Inr x" "x \<le> d"
      using assms(2) by (auto simp: newest_def find_Some_iff)
    then show "k \<in> record_key ` set out" using all r(2) eq by blast
  qed
  have "fewer out' out"
    unfolding fewer_def
  proof
    fix Q
    have "{k \<in> record_key ` set out'. Q k} \<subseteq> {k \<in> record_key ` set out. Q k}"
      using sub by auto
    then have "card {k \<in> record_key ` set out'. Q k} \<le> card {k \<in> record_key ` set out. Q k}"
      by (intro card_mono) auto
    then show "length (filter (\<lambda>r. Q (record_key r)) out') \<le> length (filter (\<lambda>r. Q (record_key r)) out)"
      using length_filter_distinct_pred [OF dist', of Q] length_filter_distinct_pred [of record_key out Q]
        dist eq by simp
  qed
  moreover have "not_after fi d out"
    using new eq unfolding not_after_def newest_def by blast
  moreover have "not_after fi d' out'"
    using new' unfolding not_after_def newest_def by blast
  ultimately show ?thesis using out' by blast
qed

lemma detail_tag_container: "t \<in> set rating_detail_tags \<Longrightarrow> map_of SEQUENCE_TAGS t \<noteq> None"
  by (auto simp: rating_detail_tags_def SEQUENCE_TAGS_def)

lemma collect_no_items: "collect tr None vs this recs = collect tr' None vs this recs"
  by (induction vs arbitrary: this) (auto split: sum.splits)

lemma collect_same:
  assumes "\<forall>e\<in>set vs. Some (tag e) = st \<longrightarrow> element_to_records tr e = element_to_records tr' e"
  shows "collect tr st vs this recs = collect tr' st vs this recs"
  using assms by (induction vs arbitrary: this recs) (auto split: sum.splits)

lemma element_to_records_item_filter:
  assumes "map_of SEQUENCE_TAGS (tag item) = None"
  shows "element_to_records (Some (filter_asof fi d)) item = element_to_records None item"
proof -
  have "tag item \<notin> set rating_detail_tags"
    using assms detail_tag_container by blast
  then have "filter_asof fi d rs item = Inr rs" for rs
    by (simp add: filter_asof_def filter_records_def)
  then show ?thesis
    using assms
    by (subst (1 2) element_to_records.simps)
       (simp add: walk_collect Let_def collect_no_items [of "Some (filter_asof fi d)" _ _ _ None]
          split: sum.splits)
qed

lemma element_to_records_one_level_filter:
  assumes "map_of SEQUENCE_TAGS (tag element) = Some item_tag"
    and "map_of SEQUENCE_TAGS item_tag = None"
  shows "element_to_records (Some (filter_asof fi d)) element =
           (case element_to_records None element of
              Inl err \<Rightarrow> Inl err
            | Inr rs \<Rightarrow> filter_records fi d rs element)"
proof -
  have "collect (Some (filter_asof fi d)) (Some item_tag) vs this recs =
          collect None (Some item_tag) vs this recs" for vs this recs
    by (rule collect_same) (use assms(2) element_to_records_item_filter in auto)
  then show ?thesis
    using assms(1)
    by (subst (1 2) element_to_records.simps)
       (simp add: walk_collect Let_def filter_asof_def split: sum.splits)
qed

lemma element_to_records_one_level_fewer:
  assumes "map_of SEQUENCE_TAGS (tag element) = Some item_tag"
    and "map_of SEQUENCE_TAGS item_tag = None"
    and "tag element \<in> set rating_detail_tags"
    and "d' \<le> d"
    and "element_to_records (Some (filter_asof fi d)) element = Inr out"
  shows "\<exists>out'. element_to_records (Some (filter_asof fi d')) element = Inr out' \<and>
           fewer out' out \<and> not_after fi d out \<and> not_after fi d' out'"
proof -
  obtain rs where rs: "element_to_records None element = Inr rs"
    and f: "filter_records fi d rs element = Inr out"
    using assms(5) unfolding element_to_records_one_level_filter [OF assms(1,2)]
    by (auto split: sum.splits)
  from filter_records_fewer [OF assms(3,4) f] obtain out' where
    "filter_records fi d' rs element = Inr out'" "fewer out' out"
    "not_after fi d out" "not_after fi d' out'"
    by blast
  then show ?thesis
    unfolding element_to_records_one_level_filter [OF assms(1,2)] rs by simp
qed

lemma not_after_append: "not_after fi d (xs @ ys) = (not_after fi d xs \<and> not_after fi d ys)"
  by (auto simp: not_after_def)

lemma collect_fewer:
  assumes "\<forall>e\<in>set vs. Some (tag e) = st \<longrightarrow>
             (\<forall>out. element_to_records (Some (filter_asof fi d)) e = Inr out \<longrightarrow>
                (\<exists>out'. element_to_records (Some (filter_asof fi d')) e = Inr out' \<and>
                   fewer out' out \<and> not_after fi d out \<and> not_after fi d' out'))"
    and "collect (Some (filter_asof fi d)) st vs this recs = Inr (t, out)"
    and "fewer recs' recs"
  shows "\<exists>out'. collect (Some (filter_asof fi d')) st vs this recs' = Inr (t, out') \<and>
           fewer out' out \<and>
           (not_after fi d recs \<and> not_after fi d' recs' \<longrightarrow> not_after fi d out \<and> not_after fi d' out')"
  using assms
proof (induction vs arbitrary: this recs recs')
  case Nil
  then show ?case by simp
next
  case (Cons e vs)
  have items: "\<forall>e\<in>set vs. Some (tag e) = st \<longrightarrow>
             (\<forall>out. element_to_records (Some (filter_asof fi d)) e = Inr out \<longrightarrow>
                (\<exists>out'. element_to_records (Some (filter_asof fi d')) e = Inr out' \<and>
                   fewer out' out \<and> not_after fi d out \<and> not_after fi d' out'))"
    using Cons.prems(1) by simp
  show ?case
  proof (cases "Some (tag e) = st")
    case True
    obtain sub where sub: "element_to_records (Some (filter_asof fi d)) e = Inr sub"
      and rest: "collect (Some (filter_asof fi d)) st vs this (recs @ sub) = Inr (t, out)"
      using Cons.prems(2) True by (auto split: sum.splits)
    obtain sub' where sub': "element_to_records (Some (filter_asof fi d')) e = Inr sub'"
      "fewer sub' sub" "not_after fi d sub" "not_after fi d' sub'"
      using Cons.prems(1) True sub by auto
    have "fewer (recs' @ sub') (recs @ sub)"
      using Cons.prems(3) sub'(2) by (rule fewer_append)
    from Cons.IH [OF items rest this] obtain out' where
      o: "collect (Some (filter_asof fi d')) st vs this (recs' @ sub') = Inr (t, out')"
        "fewer out' out"
        "not_after fi d (recs @ sub) \<and> not_after fi d' (recs' @ sub') \<longrightarrow>
           not_after fi d out \<and> not_after fi d' out'"
      by blast
    have "collect (Some (filter_asof fi d')) st (e # vs) this recs' = Inr (t, out')"
      using True sub' o(1) by simp
    then show ?thesis
      using o(2,3) sub'(3,4) by (auto simp: not_after_append)
  next
    case False
    obtain key where key: "local_name (tag e) = Inr key"
      and rest: "collect (Some (filter_asof fi d)) st vs (dict_set this key (etext e)) recs = Inr (t, out)"
      using Cons.prems(2) False by (auto split: sum.splits)
    from Cons.IH [OF items rest Cons.prems(3)] show ?thesis
      using False key by simp
  qed
qed

lemma get_dict_update:
  assumes "distinct (map fst this)"
  shows "get (dict_update r this) k = shared_value this k (get r k)"
  by (simp add: get_def shared_value_def map_of_dict_update [OF assms] map_add_def split: option.splits)

lemma record_key_dict_update:
  assumes "distinct (map fst this)"
  shows "record_key (dict_update r this) = shared_key this (record_key r)"
  by (simp add: record_key_def shared_key_def get_dict_update [OF assms])

lemma record_rad_dict_update:
  assumes "distinct (map fst this)" and "map_of this ''RAD'' = None"
  shows "record_rad fi (dict_update r this) = record_rad fi r"
  by (simp add: record_rad_def map_of_dict_update [OF assms(1)] map_add_def assms(2))

lemma record_key_attach:
  "record_key (dict_set (dict_set r ''RAN'' a) ''FCD'' b) = record_key r"
  by (simp add: record_key_def get_def map_of_dict_set)

lemma record_rad_attach:
  "record_rad fi (dict_set (dict_set r ''RAN'' a) ''FCD'' b) = record_rad fi r"
  by (simp add: record_rad_def map_of_dict_set)

lemma not_after_map:
  assumes "\<forall>r. record_rad fi (h r) = record_rad fi r"
  shows "not_after fi d (map h xs) = not_after fi d xs"
  using assms by (simp add: not_after_def)

lemma element_to_records_two_level_fewer:
  assumes "map_of SEQUENCE_TAGS (tag element) = Some item_tag"
    and "tag element \<notin> set rating_detail_tags"
    and "item_tag \<in> set rating_detail_tags"
    and "map_of SEQUENCE_TAGS item_tag = Some inner_tag"
    and "map_of SEQUENCE_TAGS inner_tag = None"
    and "d' \<le> d"
    and "element_to_records (Some (filter_asof fi d)) element = Inr out"
  shows "\<exists>out'. element_to_records (Some (filter_asof fi d')) element = Inr out' \<and>
           fewer out' out \<and>
           ((\<forall>l\<in>set (concat (map (document_order (Some item_tag)) (children element))).
                local_name (tag l) \<noteq> Inr ''RAD'') \<longrightarrow>
              not_after fi d out \<and> not_after fi d' out')"
proof -
  let ?nodes = "concat (map (document_order (Some item_tag)) (children element))"
  have pass: "filter_asof fi c rs element = Inr rs" for c :: 'a and rs
    using assms(2) by (simp add: filter_asof_def filter_records_def)
  have unfold: "element_to_records (Some (filter_asof fi c)) element =
      (case collect (Some (filter_asof fi c)) (Some item_tag) ?nodes [] [] of
         Inl err \<Rightarrow> Inl err
       | Inr (this, recs) \<Rightarrow> Inr (map (\<lambda>r. dict_update r this) recs))" for c :: 'a
    using assms(1)
    by (subst element_to_records.simps) (simp add: walk_collect Let_def pass split: sum.splits)
  obtain t recs where c: "collect (Some (filter_asof fi d)) (Some item_tag) ?nodes [] [] = Inr (t, recs)"
    and out: "out = map (\<lambda>r. dict_update r t) recs"
    using assms(7) unfolding unfold by (auto split: sum.splits)
  have items: "\<forall>e\<in>set ?nodes. Some (tag e) = Some item_tag \<longrightarrow>
             (\<forall>out. element_to_records (Some (filter_asof fi d)) e = Inr out \<longrightarrow>
                (\<exists>out'. element_to_records (Some (filter_asof fi d')) e = Inr out' \<and>
                   fewer out' out \<and> not_after fi d out \<and> not_after fi d' out'))"
  proof (intro ballI impI allI)
    fix e out0
    assume "Some (tag e) = Some item_tag"
      and o: "element_to_records (Some (filter_asof fi d)) e = Inr out0"
    then have "tag e = item_tag" by simp
    then show "\<exists>out'. element_to_records (Some (filter_asof fi d')) e = Inr out' \<and>
                   fewer out' out0 \<and> not_after fi d out0 \<and> not_after fi d' out'"
      using element_to_records_one_level_fewer [of e inner_tag d' d fi out0] assms(3,4,5,6) o
      by simp
  qed
  from collect_fewer [OF items c fewer_refl] obtain recs' where
    c': "collect (Some (filter_asof fi d')) (Some item_tag) ?nodes [] [] = Inr (t, recs')"
    and few: "fewer recs' recs"
    and na: "not_after fi d recs" "not_after fi d' recs'"
    by (auto simp: not_after_def)
  have t_def: "t = foldl store_leaf [] (filter (\<lambda>e. Some (tag e) \<noteq> Some item_tag) ?nodes)"
    and str: "\<forall>e\<in>set ?nodes. Some (tag e) \<noteq> Some item_tag \<longrightarrow> tag e \<noteq> NotStr"
    using collect_this [OF c] by simp_all
  have dist: "distinct (map fst t)"
    unfolding t_def by (simp add: distinct_store_leaves)
  have out': "element_to_records (Some (filter_asof fi d')) element = Inr (map (\<lambda>r. dict_update r t) recs')"
    unfolding unfold c' by simp
  have f: "fewer (map (\<lambda>r. dict_update r t) recs') out"
    unfolding out using record_key_dict_update [OF dist] few by (intro fewer_map) auto
  have dates: "not_after fi d out \<and> not_after fi d' (map (\<lambda>r. dict_update r t) recs')"
    if no_rad: "\<forall>l\<in>set ?nodes. local_name (tag l) \<noteq> Inr ''RAD''"
  proof -
    have "short_tag (tag e) \<noteq> ''RAD''"
      if e: "e \<in> set (rev (filter (\<lambda>e. Some (tag e) \<noteq> Some item_tag) ?nodes))" for e
    proof
      assume k: "short_tag (tag e) = ''RAD''"
      have en: "e \<in> set ?nodes" and "tag e \<noteq> NotStr" using e str by auto
      then have "local_name (tag e) = Inr ''RAD''" using k by (simp add: local_name_str)
      then show False using no_rad en by blast
    qed
    then have "List.find (\<lambda>e. short_tag (tag e) = ''RAD'')
            (rev (filter (\<lambda>e. Some (tag e) \<noteq> Some item_tag) ?nodes)) = None"
      unfolding find_None_iff by blast
    then have "map_of t ''RAD'' = None"
      unfolding t_def map_of_store_leaves by simp
    then have "\<forall>r. record_rad fi (dict_update r t) = record_rad fi r"
      using record_rad_dict_update [OF dist] by blast
    then show ?thesis
      unfolding out using na by (simp add: not_after_map)
  qed
  show ?thesis using out' f dates by blast
qed

lemma find_elem_tag: "find_elem root t = Some element \<Longrightarrow> tag element = Str t"
  by (auto simp: find_elem_def find_Some_iff)

lemma container_tags:
  "map_of SEQUENCE_TAGS (Str (RATINGS_NAMESPACE @ ''OD'')) = Some (Str (RATINGS_NAMESPACE @ ''ORD''))"
  "map_of SEQUENCE_TAGS (Str (RATINGS_NAMESPACE @ ''ORD'')) = None"
  "map_of SEQUENCE_TAGS (Str (RATINGS_NAMESPACE @ ''ISD'')) = Some (Str (RATINGS_NAMESPACE @ ''IND''))"
  "map_of SEQUENCE_TAGS (Str (RATINGS_NAMESPACE @ ''IND'')) = Some (Str (RATINGS_NAMESPACE @ ''IRD''))"
  "map_of SEQUENCE_TAGS (Str (RATINGS_NAMESPACE @ ''IRD'')) = None"
  "Str (RATINGS_NAMESPACE @ ''OD'') \<in> set rating_detail_tags"
  "Str (RATINGS_NAMESPACE @ ''IND'') \<in> set rating_detail_tags"
  "Str (RATINGS_NAMESPACE @ ''ISD'') \<notin> set rating_detail_tags"
  by (simp_all add: SEQUENCE_TAGS_def rating_detail_tags_def)

lemma issuer_valid: "''issuer'' = ''obligor'' \<or> ''issuer'' = ''issuer''"
  by simp

lemma issuer_document_records:
  "xml_to_records iso_date issuer_document ''issuer'' (Some (2022, 12, 31)) =
     Inr [[(''R'', Some ''BBB''), (''RAD'', Some ''2022-06-01''),
           (''INSTNAME'', Some ''Bond A''), (''ISSNAME'', Some ''Issuer One''),
           (''RAN'', Some ''ACME Ratings''), (''FCD'', Some ''2023-01-01'')],
          [(''R'', Some ''BB''), (''RAD'', Some ''2021-03-15''),
           (''INSTNAME'', Some ''Bond B''), (''ISSNAME'', Some ''Issuer One''),
           (''RAN'', Some ''ACME Ratings''), (''FCD'', Some ''2023-01-01'')]]"
  by code_simp

lemma issuer_document_records_early:
  "xml_to_records iso_date issuer_document ''issuer'' (Some (2021, 12, 31)) =
     Inr [[(''R'', Some ''BB''), (''RAD'', Some ''2021-03-15''),
           (''INSTNAME'', Some ''Bond B''), (''ISSNAME'', Some ''Issuer One''),
           (''RAN'', Some ''ACME Ratings''), (''FCD'', Some ''2023-01-01'')]]"
  by code_simp

lemma sample_run_completes:
  "snd (ratings_to_csv parsed always iso_date sample_archive ''obligor'' None) = None"
  by code_simp

lemma sample_archive_rows:
  "concat (map (entry_rows parsed always iso_date (fieldnames_of ''obligor'') ''obligor'' None)
     (take (length sample_archive) sample_archive)) =
   [[''ACME Ratings'', ''2023-01-01'', [], [], ''Obligor One'', [], [], [], [], [],
     [], ''BBB'', ''2022-06-01'', [], [], [], [], [], [], []],
    [''ACME Ratings'', ''2023-01-01'', [], [], ''Obligor One'', [], [], [], [], [],
     [], ''A'', ''2023-06-01'', [], [], [], [], [], [], []]]"
  by code_simp

section \<open>Claims about the tree flattener\<close>

text \<open>
  C1, as the code has it. For an element whose tag is a sequence container, the
  returned records (before the transformation, if any) are the sub-records updated with
  the shared context: the keys of each are the keys of the sub-record and of the shared
  context together, and \<open>record.update(this)\<close> gives a key they share the value of the
  shared context.
\<close>

theorem element_to_records_shared_wins:
  assumes "map_of SEQUENCE_TAGS (tag element) = Some item_tag"
    and "walk tr (Some item_tag) (rev (children element)) [] [] = Inr (this, records)"
  shows "element_to_records tr element =
           (case tr of
              None \<Rightarrow> Inr (map (\<lambda>r. dict_update r this) records)
            | Some f \<Rightarrow> f (map (\<lambda>r. dict_update r this) records) element) \<and>
         (\<forall>r\<in>set records.
            set (keys (dict_update r this)) = set (keys r) \<union> set (keys this) \<and>
            (\<forall>k. map_of (dict_update r this) k =
                   (case map_of this k of Some v \<Rightarrow> Some v | None \<Rightarrow> map_of r k)))"
proof -
  have d: "distinct (map fst this)" using assms(2) by (rule walk_this_distinct)
  have "element_to_records tr element =
           (case tr of
              None \<Rightarrow> Inr (map (\<lambda>r. dict_update r this) records)
            | Some f \<Rightarrow> f (map (\<lambda>r. dict_update r this) records) element)"
    using assms by (subst element_to_records.simps) (simp add: Let_def)
  moreover have "map_of (dict_update r this) k =
                   (case map_of this k of Some v \<Rightarrow> Some v | None \<Rightarrow> map_of r k)" for r k
    by (simp add: map_of_dict_update [OF d] map_add_def)
  ultimately show ?thesis
    using keys_dict_update [OF d] by blast
qed

theorem element_to_records_shared_wins_witness:
  "element_to_records None collision_OD =
     Inr (map (\<lambda>r. dict_update r [(''OAN'', Some ''shared'')])
            [[(''R'', Some ''BBB''), (''OAN'', Some ''item'')]]) \<and>
   map_of (dict_update [(''R'', Some ''BBB''), (''OAN'', Some ''item'')] [(''OAN'', Some ''shared'')]) ''OAN''
     = Some (Some ''shared'')"
  using element_to_records_shared_wins [OF collision_OD_tag collision_OD_walk]
  by simp

text \<open>
  A container whose item and whose own leaf share the tag \<open>OAN\<close>: the sub-record has
  \<open>item\<close>, the shared context has \<open>shared\<close>, and the returned record has \<open>shared\<close>.
\<close>

text \<open>
  A container whose item and whose own leaf share the tag \<open>OAN\<close>: the sub-record has
  \<open>item\<close>, the shared context has \<open>shared\<close>, and the returned record has \<open>shared\<close>.
\<close>

theorem element_to_records_collision_counterexample:
  "map_of SEQUENCE_TAGS (tag collision_OD) = Some (Str (RATINGS_NAMESPACE @ ''ORD'')) \<and>
   element_to_records None (node ''ORD'' [leaf ''R'' ''BBB'', leaf ''OAN'' ''item'']) =
     Inr [[(''R'', Some ''BBB''), (''OAN'', Some ''item'')]] \<and>
   walk None (Some (Str (RATINGS_NAMESPACE @ ''ORD''))) (rev (children collision_OD)) [] [] =
     Inr ([(''OAN'', Some ''shared'')], [[(''R'', Some ''BBB''), (''OAN'', Some ''item'')]]) \<and>
   element_to_records None collision_OD = Inr [[(''R'', Some ''BBB''), (''OAN'', Some ''shared'')]]"
  by code_simp




text \<open>
  C8. The loop over the stack does what a pass from left to right over the nodes in
  document order does, so of the leaves outside the items that have one stripped tag,
  the last in document order gives the shared context its value for that key.
\<close>

theorem shared_context_document_order:
  assumes "walk tr (map_of SEQUENCE_TAGS (tag element)) (rev (children element)) [] [] = Inr (this, records)"
    and "concat (map (document_order (map_of SEQUENCE_TAGS (tag element))) (children element))
           = before @ l # after"
    and "Some (tag l) \<noteq> map_of SEQUENCE_TAGS (tag element)"
    and "\<forall>e\<in>set after. Some (tag e) \<noteq> map_of SEQUENCE_TAGS (tag element) \<longrightarrow>
           local_name (tag e) \<noteq> local_name (tag l)"
  shows "walk tr (map_of SEQUENCE_TAGS (tag element)) (rev (children element)) [] [] =
           collect tr (map_of SEQUENCE_TAGS (tag element))
             (concat (map (document_order (map_of SEQUENCE_TAGS (tag element))) (children element)))
             [] [] \<and>
         children l = [] \<and>
         (\<exists>name. local_name (tag l) = Inr name \<and> map_of this name = Some (etext l))"
proof -
  let ?st = "map_of SEQUENCE_TAGS (tag element)"
  let ?nodes = "concat (map (document_order ?st) (children element))"
  have "l \<in> set ?nodes" using assms(2) by simp
  then obtain x where "l \<in> set (document_order ?st x)" by auto
  then have leaf: "children l = []"
    using document_order_nodes assms(3) by blast
  have c: "collect tr ?st ?nodes [] [] = Inr (this, records)"
    using assms(1) by (simp add: walk_collect)
  have this_def: "this = foldl store_leaf [] (filter (\<lambda>e. Some (tag e) \<noteq> ?st) ?nodes)"
    and str: "\<forall>e\<in>set ?nodes. Some (tag e) \<noteq> ?st \<longrightarrow> tag e \<noteq> NotStr"
    using collect_this [OF c] by simp_all
  have this_eq: "this = foldl store_leaf []
      (filter (\<lambda>e. Some (tag e) \<noteq> ?st) before @ l # filter (\<lambda>e. Some (tag e) \<noteq> ?st) after)"
    using this_def assms(2,3) by simp
  have l_str: "local_name (tag l) = Inr (short_tag (tag l))"
    using str assms(2,3) by (simp add: local_name_str)
  have "\<forall>e\<in>set after. Some (tag e) \<noteq> ?st \<longrightarrow> short_tag (tag e) \<noteq> short_tag (tag l)"
  proof (intro ballI impI)
    fix e assume e: "e \<in> set after" "Some (tag e) \<noteq> ?st"
    then have "local_name (tag e) = Inr (short_tag (tag e))"
      using str assms(2) by (simp add: local_name_str)
    then show "short_tag (tag e) \<noteq> short_tag (tag l)"
      using assms(4) e l_str by auto
  qed
  then have "List.find (\<lambda>e. short_tag (tag e) = short_tag (tag l))
          (rev (filter (\<lambda>e. Some (tag e) \<noteq> ?st) after)) = None"
    by (auto simp: find_None_iff)
  then have "map_of this (short_tag (tag l)) = Some (etext l)"
    unfolding this_eq map_of_store_leaves by (simp add: find_append)
  moreover have "walk tr ?st (rev (children element)) [] [] = collect tr ?st ?nodes [] []"
    by (simp add: walk_collect)
  ultimately show ?thesis using leaf l_str by simp
qed

theorem shared_context_document_order_witness:
  "children (leaf ''OAN'' ''second'') = [] \<and>
   local_name (tag (leaf ''OAN'' ''second'')) = Inr ''OAN'' \<and>
   map_of [(''OBNAME'', Some ''Obligor One''), (''OAN'', Some ''second''), (''LEI'', Some ''X1'')]
     ''OAN'' = Some (etext (leaf ''OAN'' ''second''))"
proof -
  have item: "Some (tag (leaf ''OAN'' ''second'')) \<noteq> map_of SEQUENCE_TAGS (tag sample_OD)"
    by code_simp
  have later: "\<forall>e\<in>set [node ''ORD'' [leaf ''R'' ''A'', leaf ''RAD'' ''2023-06-01'']].
          Some (tag e) \<noteq> map_of SEQUENCE_TAGS (tag sample_OD) \<longrightarrow>
           local_name (tag e) \<noteq> local_name (tag (leaf ''OAN'' ''second''))"
    by (simp add: node_def sample_OD_def SEQUENCE_TAGS_def)
  have name: "local_name (tag (leaf ''OAN'' ''second'')) = Inr ''OAN''"
    by code_simp
  from shared_context_document_order [OF sample_OD_walk sample_OD_order item later]
  show ?thesis using name by auto
qed

section \<open>Claims about the As-Of filter\<close>

text \<open>
  C2. At a rating-detail container tag, with every record carrying a date the parser
  accepts, \<open>filter_records\<close> returns; a record dated strictly after the cutoff is not in
  the output; the output has at most one record for each key (rating type, subtype,
  term), \<open>None\<close> being a key component like any other; and the date of each returned
  record is the maximum of the dates not after the cutoff among the input records of
  its key.
\<close>

theorem filter_records_most_recent:
  assumes "tag element \<in> set rating_detail_tags"
    and "\<forall>r\<in>set records. \<exists>d. record_rad fromisoformat r = Inr d"
  shows "\<exists>out. filter_records fromisoformat asof records element = Inr out \<and>
     (\<forall>r\<in>set records. \<forall>d. record_rad fromisoformat r = Inr d \<and> asof < d \<longrightarrow> r \<notin> set out) \<and>
     distinct (map record_key out) \<and>
     (\<forall>r\<in>set out. r \<in> set records \<and>
        (\<exists>d. record_rad fromisoformat r = Inr d \<and> d \<le> asof \<and>
           d = Max {d'. \<exists>r'\<in>set records. record_key r' = record_key r \<and>
                      record_rad fromisoformat r' = Inr d' \<and> d' \<le> asof}))"
proof -
  obtain by_type where out: "filter_records fromisoformat asof records element = Inr (map snd by_type)"
    and inv: "by_type_inv fromisoformat asof records by_type"
    using filter_records_inv [OF assms] by blast
  let ?out = "map snd by_type"
  have new: "\<exists>d. newest fromisoformat asof records r d" if "r \<in> set ?out" for r
    using by_type_inv_values(2) [OF inv that] .
  have a: "\<forall>r\<in>set records. \<forall>d. record_rad fromisoformat r = Inr d \<and> asof < d \<longrightarrow> r \<notin> set ?out"
    using new unfolding newest_def by fastforce
  have "distinct (map fst by_type)" using inv by (simp add: by_type_inv_def)
  then have b: "distinct (map record_key ?out)"
    by (simp only: by_type_inv_values(1) [OF inv])
  have c: "r \<in> set records \<and>
        (\<exists>d. record_rad fromisoformat r = Inr d \<and> d \<le> asof \<and>
           d = Max {d'. \<exists>r'\<in>set records. record_key r' = record_key r \<and>
                      record_rad fromisoformat r' = Inr d' \<and> d' \<le> asof})"
    if rin: "r \<in> set ?out" for r
  proof -
    obtain d where n: "newest fromisoformat asof records r d" using new [OF rin] by blast
    let ?D = "{d'. \<exists>r'\<in>set records. record_key r' = record_key r \<and>
                      record_rad fromisoformat r' = Inr d' \<and> d' \<le> asof}"
    have mem: "r \<in> set records"
      using n unfolding newest_def by (auto simp: find_Some_iff)
    have "?D \<subseteq> (\<lambda>r'. case record_rad fromisoformat r' of Inr d' \<Rightarrow> d' | Inl e \<Rightarrow> d) ` set records"
      by force
    then have fin: "finite ?D" by (rule finite_surj [rotated]) simp
    have "d \<in> ?D" using n mem unfolding newest_def by auto
    moreover have "\<And>x. x \<in> ?D \<Longrightarrow> x \<le> d" using n unfolding newest_def by auto
    ultimately have "Max ?D = d" using fin by (intro Max_eqI) auto
    then show ?thesis using n mem unfolding newest_def by auto
  qed
  show ?thesis
    using out a b c by blast
qed

theorem filter_records_most_recent_witness:
  "filter_records iso_date (2022, 12, 31) sample_ratings OD_element =
     Inr [rating ''BBB'' ''2022-06-01'' ''LT'', rating ''P-2'' ''2021-03-15'' ''ST''] \<and>
   (\<exists>out. filter_records iso_date (2022, 12, 31) sample_ratings OD_element = Inr out \<and>
     (\<forall>r\<in>set sample_ratings. \<forall>d. record_rad iso_date r = Inr d \<and> (2022, 12, 31) < d \<longrightarrow> r \<notin> set out) \<and>
     distinct (map record_key out) \<and>
     (\<forall>r\<in>set out. r \<in> set sample_ratings \<and>
        (\<exists>d. record_rad iso_date r = Inr d \<and> d \<le> (2022, 12, 31) \<and>
           d = Max {d'. \<exists>r'\<in>set sample_ratings. record_key r' = record_key r \<and>
                      record_rad iso_date r' = Inr d' \<and> d' \<le> (2022, 12, 31)})))"
  by (rule conjI [OF filter_sample
        filter_records_most_recent [OF OD_element_detail sample_ratings_valid]])

text \<open>
  C3, as the code has it. The comparison \<open>date.fromisoformat(old["RAD"]) < rad\<close> is
  strict, so a record whose date equals the date of the record already stored for its
  key does not replace it. The filter returns one record for each key, and the records
  returned are exactly those that have the latest date not after the cutoff among the
  records of their key and are the first, in document order, of their key and date.
\<close>

theorem filter_records_tie_first:
  assumes "tag element \<in> set rating_detail_tags"
    and "\<forall>r\<in>set records. \<exists>d. record_rad fromisoformat r = Inr d"
  shows "\<exists>out. filter_records fromisoformat asof records element = Inr out \<and>
     distinct (map record_key out) \<and>
     (\<forall>r\<in>set out. \<exists>i<length records. records ! i = r \<and> first_newest fromisoformat asof records i) \<and>
     (\<forall>i<length records. first_newest fromisoformat asof records i \<longrightarrow> records ! i \<in> set out)"
proof -
  obtain out where out: "filter_records fromisoformat asof records element = Inr out"
    and dist: "distinct (map record_key out)"
    and new: "\<forall>r\<in>set out. \<exists>d. newest fromisoformat asof records r d"
    and all: "\<forall>r'\<in>set records. \<forall>d'. record_rad fromisoformat r' = Inr d' \<and> d' \<le> asof \<longrightarrow>
         record_key r' \<in> record_key ` set out"
    using filter_records_summary [OF assms, of asof] by blast
  have sound: "\<exists>i<length records. records ! i = r \<and> first_newest fromisoformat asof records i"
    if rin: "r \<in> set out" for r
  proof -
    obtain d where n: "newest fromisoformat asof records r d" using new rin by blast
    then have f: "List.find (\<lambda>r'. record_key r' = record_key r \<and> record_rad fromisoformat r' = Inr d) records = Some r"
      by (simp add: newest_def)
    then obtain i where i: "i < length records" "records ! i = r"
      "\<forall>j<i. \<not> (record_key (records ! j) = record_key r \<and> record_rad fromisoformat (records ! j) = Inr d)"
      unfolding find_Some_iff by blast
    have "first_newest fromisoformat asof records i"
      unfolding first_newest_def i(2) using n i(3) by (auto simp: newest_def)
    with i(1,2) show ?thesis by blast
  qed
  have complete: "records ! i \<in> set out"
    if i: "i < length records" and fn: "first_newest fromisoformat asof records i" for i
  proof -
    obtain d where d: "record_rad fromisoformat (records ! i) = Inr d" "d \<le> asof"
      and dmax: "\<forall>r'\<in>set records. \<forall>d'. record_key r' = record_key (records ! i) \<and>
             record_rad fromisoformat r' = Inr d' \<and> d' \<le> asof \<longrightarrow> d' \<le> d"
      and first: "\<forall>j<i. \<not> (record_key (records ! j) = record_key (records ! i) \<and>
                    record_rad fromisoformat (records ! j) = Inr d)"
      using fn unfolding first_newest_def by blast
    have mem: "records ! i \<in> set records" using i by simp
    then obtain r where r: "r \<in> set out" "record_key r = record_key (records ! i)"
      using all d by force
    obtain dr where n: "newest fromisoformat asof records r dr" using new r(1) by blast
    then have f: "List.find (\<lambda>r'. record_key r' = record_key r \<and> record_rad fromisoformat r' = Inr dr) records = Some r"
      and rdr: "record_rad fromisoformat r = Inr dr" "dr \<le> asof"
      and rmax: "\<forall>r'\<in>set records. \<forall>d'. record_key r' = record_key r \<and>
           record_rad fromisoformat r' = Inr d' \<and> d' \<le> asof \<longrightarrow> d' \<le> dr"
      by (simp_all add: newest_def)
    have rmem: "r \<in> set records" using f by (auto simp: find_Some_iff)
    have "d \<le> dr" using rmax mem d r(2) by auto
    moreover have "dr \<le> d" using dmax rmem rdr r(2) by auto
    ultimately have eq: "dr = d" by simp
    have "List.find (\<lambda>r'. record_key r' = record_key r \<and> record_rad fromisoformat r' = Inr dr) records
            = Some (records ! i)"
      unfolding find_Some_iff using i d(1) first r(2) eq by auto
    with f have "r = records ! i" by simp
    with r(1) show ?thesis by simp
  qed
  show ?thesis using out dist sound complete by blast
qed

theorem filter_records_tie_first_witness:
  "filter_records iso_date (2022, 12, 31) sample_ratings OD_element =
     Inr [rating ''BBB'' ''2022-06-01'' ''LT'', rating ''P-2'' ''2021-03-15'' ''ST''] \<and>
   (\<exists>out. filter_records iso_date (2022, 12, 31) sample_ratings OD_element = Inr out \<and>
     distinct (map record_key out) \<and>
     (\<forall>r\<in>set out. \<exists>i<length sample_ratings. sample_ratings ! i = r \<and>
         first_newest iso_date (2022, 12, 31) sample_ratings i) \<and>
     (\<forall>i<length sample_ratings. first_newest iso_date (2022, 12, 31) sample_ratings i \<longrightarrow>
         sample_ratings ! i \<in> set out))"
  by (rule conjI [OF filter_sample
        filter_records_tie_first [OF OD_element_detail sample_ratings_valid]])

text \<open>
  Two records of one key and one date, not after the cutoff: the filter returns the
  one met first, not the one met later.
\<close>

theorem filter_records_tie_counterexample:
  "record_key (rating ''BBB'' ''2022-06-01'' ''LT'') = record_key (rating ''BBB+'' ''2022-06-01'' ''LT'') \<and>
   record_rad iso_date (rating ''BBB'' ''2022-06-01'' ''LT'') = Inr (2022, 6, 1) \<and>
   record_rad iso_date (rating ''BBB+'' ''2022-06-01'' ''LT'') = Inr (2022, 6, 1) \<and>
   filter_records iso_date (2022, 12, 31)
     [rating ''BBB'' ''2022-06-01'' ''LT'', rating ''BBB+'' ''2022-06-01'' ''LT''] OD_element
     = Inr [rating ''BBB'' ''2022-06-01'' ''LT''] \<and>
   filter_records iso_date (2022, 12, 31)
     [rating ''BBB'' ''2022-06-01'' ''LT'', rating ''BBB+'' ''2022-06-01'' ''LT''] OD_element
     \<noteq> Inr [rating ''BBB+'' ''2022-06-01'' ''LT'']"
  by (simp add: filter_records_def rating_detail_tags_def OD_element_def RATINGS_NAMESPACE_def
      rating_def record_rad_def iso_date_samples record_key_def get_def dict_values_def)

section \<open>Claims about the record extractor\<close>

text \<open>
  C7. For a valid rating type: when no element of the document, the root included, has
  the rating type's root tag, extraction returns the empty list of records and no
  error. When the path finds such an element, the result is the flattened records of
  that element, each with \<open>RAN\<close> and \<open>FCD\<close> set to the document-level texts, whatever the
  record held under these keys; so every record returned has these two values. Without
  a cutoff, and with string tags on all the nodes of the element found, the extraction
  returns.
\<close>

theorem xml_to_records_root:
  assumes "rating_type = ''obligor'' \<or> rating_type = ''issuer''"
    and "root_tag = RATINGS_NAMESPACE @ (if rating_type = ''obligor'' then ''OD'' else ''ISD'')"
    and "ran_text = findtext root (RATINGS_NAMESPACE @ ''RAN'')"
    and "fcd_text = findtext root (RATINGS_NAMESPACE @ ''FCD'')"
    and "transformation = (case asof of None \<Rightarrow> None | Some d \<Rightarrow> Some (filter_asof fromisoformat d))"
  shows "((\<forall>e\<in>set (root # descendants root). tag e \<noteq> Str root_tag) \<longrightarrow>
            xml_to_records fromisoformat root rating_type asof = Inr []) \<and>
         (\<forall>element. find_elem root root_tag = Some element \<longrightarrow>
            xml_to_records fromisoformat root rating_type asof =
              (case element_to_records transformation element of
                 Inl err \<Rightarrow> Inl err
               | Inr flat \<Rightarrow> Inr (map (\<lambda>r. dict_set (dict_set r ''RAN'' ran_text) ''FCD'' fcd_text) flat))) \<and>
         (\<forall>records. xml_to_records fromisoformat root rating_type asof = Inr records \<longrightarrow>
            (\<forall>r\<in>set records. map_of r ''RAN'' = Some ran_text \<and> map_of r ''FCD'' = Some fcd_text)) \<and>
         (asof = None \<and> (\<forall>element. find_elem root root_tag = Some element \<longrightarrow> string_tags element) \<longrightarrow>
            (\<exists>records. xml_to_records fromisoformat root rating_type asof = Inr records))"
proof -
  have absent: "xml_to_records fromisoformat root rating_type asof = Inr []"
    if "\<forall>e\<in>set (root # descendants root). tag e \<noteq> Str root_tag"
  proof -
    have "find_elem root root_tag = None" using that by (simp add: find_elem_None)
    then show ?thesis using assms(1,2) by (auto simp: xml_to_records_def)
  qed
  have present: "xml_to_records fromisoformat root rating_type asof =
              (case element_to_records transformation element of
                 Inl err \<Rightarrow> Inl err
               | Inr flat \<Rightarrow> Inr (map (\<lambda>r. dict_set (dict_set r ''RAN'' ran_text) ''FCD'' fcd_text) flat))"
    if "find_elem root root_tag = Some element" for element
    using that assms by (auto simp: xml_to_records_def Let_def split: sum.splits)
  have shape: "\<exists>flat. records = map (\<lambda>r. dict_set (dict_set r ''RAN'' ran_text) ''FCD'' fcd_text) flat"
    if "xml_to_records fromisoformat root rating_type asof = Inr records" for records
    using that assms
    by (auto simp: xml_to_records_def Let_def split: option.splits sum.splits if_splits)
  have attached: "\<forall>r\<in>set records. map_of r ''RAN'' = Some ran_text \<and> map_of r ''FCD'' = Some fcd_text"
    if r: "xml_to_records fromisoformat root rating_type asof = Inr records" for records
  proof -
    from shape [OF r] obtain flat where
      f: "records = map (\<lambda>r. dict_set (dict_set r ''RAN'' ran_text) ''FCD'' fcd_text) flat" by blast
    show ?thesis unfolding f by (auto simp: map_of_dict_set)
  qed
  have total: "\<exists>records. xml_to_records fromisoformat root rating_type asof = Inr records"
    if no_cutoff: "asof = None"
      and strings: "\<forall>element. find_elem root root_tag = Some element \<longrightarrow> string_tags element"
  proof (cases "find_elem root root_tag")
    case None
    then show ?thesis using assms(1,2) by (auto simp: xml_to_records_def)
  next
    case (Some element)
    have "transformation = None" using assms(5) no_cutoff by simp
    moreover have "string_tags element" using strings Some by blast
    ultimately obtain flat where "element_to_records transformation element = Inr flat"
      using flatten_total(1) [of transformation element] by blast
    then show ?thesis using present [OF Some] by simp
  qed
  show ?thesis
    using absent present attached total by blast
qed

theorem xml_to_records_root_witness:
  "xml_to_records iso_date sample_document ''issuer'' None = Inr [] \<and>
   xml_to_records iso_date sample_document ''obligor'' None =
     Inr [[(''R'', Some ''BBB''), (''RAD'', Some ''2022-06-01''),
           (''OBNAME'', Some ''Obligor One''), (''RAN'', Some ''ACME Ratings''),
           (''FCD'', Some ''2023-01-01'')],
          [(''R'', Some ''A''), (''RAD'', Some ''2023-06-01''),
           (''OBNAME'', Some ''Obligor One''), (''RAN'', Some ''ACME Ratings''),
           (''FCD'', Some ''2023-01-01'')]] \<and>
   map_of [(''R'', Some ''BBB''), (''RAD'', Some ''2022-06-01''),
           (''OBNAME'', Some ''Obligor One''), (''RAN'', Some ''ACME Ratings''),
           (''FCD'', Some ''2023-01-01'')] ''RAN'' = Some (Some ''ACME Ratings'')"
proof -
  have a: "xml_to_records iso_date sample_document ''issuer'' None = Inr []"
    using xml_to_records_root [where rating_type = "''issuer''" and root = sample_document
          and asof = None and fromisoformat = iso_date, OF _ refl refl refl refl]
      sample_document_no_ISD
    by simp
  have "\<forall>r\<in>set [[(''R'', Some ''BBB''), (''RAD'', Some ''2022-06-01''),
           (''OBNAME'', Some ''Obligor One''), (''RAN'', Some ''ACME Ratings''),
           (''FCD'', Some ''2023-01-01'')],
          [(''R'', Some ''A''), (''RAD'', Some ''2023-06-01''),
           (''OBNAME'', Some ''Obligor One''), (''RAN'', Some ''ACME Ratings''),
           (''FCD'', Some ''2023-01-01'')]].
      map_of r ''RAN'' = Some (findtext sample_document (RATINGS_NAMESPACE @ ''RAN''))"
    using xml_to_records_root [where rating_type = "''obligor''" and root = sample_document
          and asof = None and fromisoformat = iso_date, OF _ refl refl refl refl]
      sample_document_records
    by simp
  then show ?thesis
    using a sample_document_records by (simp add: sample_document_findtext)
qed

text \<open>
  C9, as the code has it. For a document and cutoffs \<open>d' \<le> d\<close>: when extraction with
  \<open>d\<close> returns, extraction with \<open>d'\<close> returns too, with no more records than it for
  each key (rating type, subtype, term). No returned date is after the cutoff used in
  an obligor document, and in an issuer document whose issuer-detail element has no
  leaf \<open>RAD\<close> of its own outside its instruments: the filter runs at each instrument,
  and the leaves of the issuer-detail element are written over the records after it.
\<close>

theorem xml_to_records_asof_monotone:
  assumes "rating_type = ''obligor'' \<or> rating_type = ''issuer''"
    and "d' \<le> d"
    and "xml_to_records fromisoformat root rating_type (Some d) = Inr out"
  shows "\<exists>out'. xml_to_records fromisoformat root rating_type (Some d') = Inr out' \<and>
           (\<forall>k. length (filter (\<lambda>r. record_key r = k) out')
                   \<le> length (filter (\<lambda>r. record_key r = k) out)) \<and>
           (rating_type = ''obligor'' \<or>
            (\<forall>element. find_elem root (RATINGS_NAMESPACE @ ''ISD'') = Some element \<longrightarrow>
               (\<forall>l\<in>set (concat (map (document_order (Some (Str (RATINGS_NAMESPACE @ ''IND''))))
                                  (children element))).
                  local_name (tag l) \<noteq> Inr ''RAD''))
            \<longrightarrow>
              (\<forall>r\<in>set out. \<exists>x. record_rad fromisoformat r = Inr x \<and> x \<le> d) \<and>
              (\<forall>r\<in>set out'. \<exists>x. record_rad fromisoformat r = Inr x \<and> x \<le> d'))"
proof -
  let ?fi = fromisoformat
  let ?root_tag = "RATINGS_NAMESPACE @ (if rating_type = ''obligor'' then ''OD'' else ''ISD'')"
  let ?attach = "\<lambda>r. dict_set (dict_set r ''RAN'' (findtext root (RATINGS_NAMESPACE @ ''RAN'')))
                    ''FCD'' (findtext root (RATINGS_NAMESPACE @ ''FCD''))"
  let ?no_rad = "\<forall>element. find_elem root (RATINGS_NAMESPACE @ ''ISD'') = Some element \<longrightarrow>
               (\<forall>l\<in>set (concat (map (document_order (Some (Str (RATINGS_NAMESPACE @ ''IND''))))
                                  (children element))).
                  local_name (tag l) \<noteq> Inr ''RAD'')"
  have unfold: "xml_to_records ?fi root rating_type (Some c) =
      (case find_elem root ?root_tag of
         None \<Rightarrow> Inr []
       | Some element \<Rightarrow>
           (case element_to_records (Some (filter_asof ?fi c)) element of
              Inl err \<Rightarrow> Inl err
            | Inr flat \<Rightarrow> Inr (map ?attach flat)))" for c
    using assms(1) by (auto simp: xml_to_records_def Let_def split: option.splits sum.splits)
  show ?thesis
  proof (cases "find_elem root ?root_tag")
    case None
    then have "xml_to_records ?fi root rating_type (Some d') = Inr []" "out = []"
      using assms(3) unfolding unfold by simp_all
    then show ?thesis by simp
  next
    case (Some element)
    then have tag: "tag element = Str ?root_tag" by (rule find_elem_tag)
    obtain flat where flat: "element_to_records (Some (filter_asof ?fi d)) element = Inr flat"
      and out: "out = map ?attach flat"
      using assms(3) Some unfolding unfold by (auto split: sum.splits)
    have "\<exists>flat'. element_to_records (Some (filter_asof ?fi d')) element = Inr flat' \<and>
            fewer flat' flat \<and>
            (rating_type = ''obligor'' \<or> ?no_rad \<longrightarrow> not_after ?fi d flat \<and> not_after ?fi d' flat')"
    proof (cases "rating_type = ''obligor''")
      case True
      then have t: "tag element = Str (RATINGS_NAMESPACE @ ''OD'')" using tag by simp
      show ?thesis
        using element_to_records_one_level_fewer [of element "Str (RATINGS_NAMESPACE @ ''ORD'')" d' d ?fi flat]
          t container_tags assms(2) flat
        by auto
    next
      case False
      then have t: "tag element = Str (RATINGS_NAMESPACE @ ''ISD'')"
        and f: "find_elem root (RATINGS_NAMESPACE @ ''ISD'') = Some element"
        using tag Some by simp_all
      from element_to_records_two_level_fewer [of element "Str (RATINGS_NAMESPACE @ ''IND'')"
          "Str (RATINGS_NAMESPACE @ ''IRD'')" d' d ?fi flat] t container_tags assms(2) flat
      obtain flat' where
        "element_to_records (Some (filter_asof ?fi d')) element = Inr flat'" "fewer flat' flat"
        "(\<forall>l\<in>set (concat (map (document_order (Some (Str (RATINGS_NAMESPACE @ ''IND''))))
                                  (children element))).
                local_name (tag l) \<noteq> Inr ''RAD'') \<longrightarrow>
              not_after ?fi d flat \<and> not_after ?fi d' flat'"
        by auto
      then show ?thesis using False f by blast
    qed
    then obtain flat' where flat': "element_to_records (Some (filter_asof ?fi d')) element = Inr flat'"
      and few: "fewer flat' flat"
      and dates: "rating_type = ''obligor'' \<or> ?no_rad \<longrightarrow> not_after ?fi d flat \<and> not_after ?fi d' flat'"
      by blast
    have out': "xml_to_records ?fi root rating_type (Some d') = Inr (map ?attach flat')"
      unfolding unfold Some using flat' by simp
    have "fewer (map ?attach flat') (map ?attach flat)"
      using few by (intro fewer_map [where g = "\<lambda>k. k"]) (simp_all add: record_key_attach)
    then have count: "\<forall>k. length (filter (\<lambda>r. record_key r = k) (map ?attach flat'))
                   \<le> length (filter (\<lambda>r. record_key r = k) out)"
      unfolding out using fewer_key by blast
    have "not_after ?fi c (map ?attach xs) = not_after ?fi c xs" for c xs
      by (rule not_after_map) (simp add: record_rad_attach)
    then have bound: "rating_type = ''obligor'' \<or> ?no_rad \<longrightarrow>
        not_after ?fi d out \<and> not_after ?fi d' (map ?attach flat')"
      unfolding out using dates by simp
    show ?thesis
      using out' count bound unfolding not_after_def by blast
  qed
qed

theorem xml_to_records_asof_monotone_witness:
  "xml_to_records iso_date issuer_document ''issuer'' (Some (2021, 12, 31)) =
     Inr [[(''R'', Some ''BB''), (''RAD'', Some ''2021-03-15''),
           (''INSTNAME'', Some ''Bond B''), (''ISSNAME'', Some ''Issuer One''),
           (''RAN'', Some ''ACME Ratings''), (''FCD'', Some ''2023-01-01'')]] \<and>
   (\<exists>out'. xml_to_records iso_date issuer_document ''issuer'' (Some (2021, 12, 31)) = Inr out' \<and>
      (\<forall>k. length (filter (\<lambda>r. record_key r = k) out')
              \<le> length (filter (\<lambda>r. record_key r = k)
                   [[(''R'', Some ''BBB''), (''RAD'', Some ''2022-06-01''),
                     (''INSTNAME'', Some ''Bond A''), (''ISSNAME'', Some ''Issuer One''),
                     (''RAN'', Some ''ACME Ratings''), (''FCD'', Some ''2023-01-01'')],
                    [(''R'', Some ''BB''), (''RAD'', Some ''2021-03-15''),
                     (''INSTNAME'', Some ''Bond B''), (''ISSNAME'', Some ''Issuer One''),
                     (''RAN'', Some ''ACME Ratings''), (''FCD'', Some ''2023-01-01'')]])))"
proof -
  from xml_to_records_asof_monotone [OF issuer_valid sample_dates_le issuer_document_records]
  have "\<exists>out'. xml_to_records iso_date issuer_document ''issuer'' (Some (2021, 12, 31)) = Inr out' \<and>
      (\<forall>k. length (filter (\<lambda>r. record_key r = k) out')
              \<le> length (filter (\<lambda>r. record_key r = k)
                   [[(''R'', Some ''BBB''), (''RAD'', Some ''2022-06-01''),
                     (''INSTNAME'', Some ''Bond A''), (''ISSNAME'', Some ''Issuer One''),
                     (''RAN'', Some ''ACME Ratings''), (''FCD'', Some ''2023-01-01'')],
                    [(''R'', Some ''BB''), (''RAD'', Some ''2021-03-15''),
                     (''INSTNAME'', Some ''Bond B''), (''ISSNAME'', Some ''Issuer One''),
                     (''RAN'', Some ''ACME Ratings''), (''FCD'', Some ''2023-01-01'')]]))"
    by blast
  with issuer_document_records_early show ?thesis by (rule conjI)
qed

text \<open>
  An issuer document whose issuer-detail element has a leaf \<open>RAD\<close> beside its one
  instrument: with the cutoff 2022-12-31 the record of the rating dated 2022-06-01 is
  returned with the date 2030-01-01.
\<close>

theorem xml_to_records_asof_date_counterexample:
  "xml_to_records iso_date dated_issuer_document ''issuer'' (Some (2022, 12, 31)) =
     Inr [[(''R'', Some ''BBB''), (''RAD'', Some ''2030-01-01''), (''INSTNAME'', Some ''Bond A''),
           (''RAN'', Some ''ACME Ratings''), (''FCD'', Some ''2023-01-01'')]] \<and>
   record_rad iso_date
     [(''R'', Some ''BBB''), (''RAD'', Some ''2030-01-01''), (''INSTNAME'', Some ''Bond A''),
      (''RAN'', Some ''ACME Ratings''), (''FCD'', Some ''2023-01-01'')] = Inr (2030, 1, 1) \<and>
   \<not> ((2030, 1, 1) :: date) \<le> (2022, 12, 31)"
  by code_simp

section \<open>Claims about the CSV export\<close>

text \<open>
  C4, as the code has it. The handler is \<open>except UnicodeEncodeError\<close>. When the
  entries before have been processed and parsing an entry named \<open>*.xml\<close> raises, the
  entry adds no row; the run goes on with the entries after it when the exception is
  \<open>UnicodeEncodeError\<close>, and ends with the exception otherwise, the entries after it
  left unread.
\<close>

theorem parse_failure_handling:
  assumes "rating_type = ''obligor'' \<or> rating_type = ''issuer''"
    and "encodable (fieldnames_of rating_type)"
    and "process_entries parse encodable fromisoformat (fieldnames_of rating_type) rating_type asof
           before [fieldnames_of rating_type] = (out, None)"
    and "endswith filename ''.xml''"
    and "parse file = Inl err"
  shows "ratings_to_csv parse encodable fromisoformat (before @ (filename, file) # rest) rating_type asof =
           (if err = UnicodeEncodeError
            then process_entries parse encodable fromisoformat (fieldnames_of rating_type)
                   rating_type asof rest out
            else (out, Some err))"
  unfolding ratings_to_csv_split [OF assms(1-3)]
  using assms(4,5) by (simp add: try_body_def)

theorem parse_failure_handling_witness:
  "ratings_to_csv parsed always iso_date
     ([] @ (''a.xml'', Inl XMLSyntaxError) # [(''b.xml'', Inr sample_document)]) ''obligor'' None
     = ([obligor_header], Some XMLSyntaxError) \<and>
   ratings_to_csv parsed always iso_date
     ([] @ (''a.xml'', Inl UnicodeEncodeError) # [(''b.xml'', Inr sample_document)]) ''obligor'' None
     = process_entries parsed always iso_date obligor_header ''obligor'' None
         [(''b.xml'', Inr sample_document)] [obligor_header]"
proof -
  have valid: "''obligor'' = ''obligor'' \<or> ''obligor'' = ''issuer''" by simp
  have enc: "always (fieldnames_of ''obligor'')" by (simp add: always_def)
  have before: "process_entries parsed always iso_date (fieldnames_of ''obligor'') ''obligor'' None
           [] [fieldnames_of ''obligor''] = ([fieldnames_of ''obligor''], None)"
    by simp
  have p1: "parsed (Inl XMLSyntaxError) = Inl XMLSyntaxError"
    and p2: "parsed (Inl UnicodeEncodeError) = Inl UnicodeEncodeError"
    by (simp_all add: parsed_def)
  show ?thesis
    using parse_failure_handling [OF valid enc before xml_suffix p1]
      parse_failure_handling [OF valid enc before xml_suffix p2]
    by (simp add: obligor_fieldnames)
qed

text \<open>
  An archive whose first entry fails to parse (a syntax error, or bytes that do not
  decode) and whose second entry is a good document: the run ends with the exception
  and the file holds the header alone.
\<close>

theorem parse_failure_counterexample:
  "ratings_to_csv parsed always iso_date
     [(''a.xml'', Inl XMLSyntaxError), (''b.xml'', Inr sample_document)] ''obligor'' None
     = ([obligor_header], Some XMLSyntaxError) \<and>
   ratings_to_csv parsed always iso_date
     [(''a.xml'', Inl UnicodeDecodeError), (''b.xml'', Inr sample_document)] ''obligor'' None
     = ([obligor_header], Some UnicodeDecodeError)"
  by code_simp

text \<open>
  C5, as the code has it. \<open>list(AGENCY_FIELDS | ... | RATING_FIELDS)\<close> is the list of
  the keys: for a valid rating type (and a header the file can encode) the first row of
  the file is the short tags of the agency, then the type-specific, then the rating
  dictionary. The rows after it are, entry after entry up to where the run ends, the
  rows of the records the extraction returns for the entry, in their order and up to
  the first that cannot be written; the row of a record has one cell for each short
  tag, in the order of the header, holding the record's value under that short tag.
  The values of the dictionaries are not used.
\<close>

theorem csv_columns_short_tags:
  assumes "rating_type = ''obligor'' \<or> rating_type = ''issuer''"
    and "encodable (fieldnames_of rating_type)"
  shows "\<exists>n\<le>length zip_entries.
           fst (ratings_to_csv parse encodable fromisoformat zip_entries rating_type asof) =
             fieldnames_of rating_type
             # concat (map (entry_rows parse encodable fromisoformat (fieldnames_of rating_type)
                             rating_type asof)
                        (take n zip_entries)) \<and>
           (snd (ratings_to_csv parse encodable fromisoformat zip_entries rating_type asof) = None
              \<longrightarrow> n = length zip_entries) \<and>
           fieldnames_of rating_type =
             keys AGENCY_FIELDS
             @ keys (if rating_type = ''obligor'' then OBLIGOR_FIELDS else ISSUER_FIELDS)
             @ keys RATING_FIELDS \<and>
           (\<forall>r. length (row_of (fieldnames_of rating_type) r) = length (fieldnames_of rating_type) \<and>
                (\<forall>i<length (fieldnames_of rating_type).
                   row_of (fieldnames_of rating_type) r ! i =
                     (case get r (fieldnames_of rating_type ! i) of None \<Rightarrow> [] | Some v \<Rightarrow> v)))"
proof -
  let ?fns = "fieldnames_of rating_type"
  have run: "ratings_to_csv parse encodable fromisoformat zip_entries rating_type asof =
          process_entries parse encodable fromisoformat ?fns rating_type asof zip_entries [?fns]"
    using assms by (auto simp: ratings_to_csv_def)
  obtain n where n: "n \<le> length zip_entries"
    "fst (process_entries parse encodable fromisoformat ?fns rating_type asof zip_entries [?fns]) =
       [?fns] @ concat (map (entry_rows parse encodable fromisoformat ?fns rating_type asof)
                          (take n zip_entries))"
    "snd (process_entries parse encodable fromisoformat ?fns rating_type asof zip_entries [?fns]) = None
       \<longrightarrow> n = length zip_entries"
    using process_entries_written [of zip_entries parse encodable fromisoformat ?fns rating_type asof "[?fns]"]
    by (elim exE conjE)
  have "fst (ratings_to_csv parse encodable fromisoformat zip_entries rating_type asof) =
          ?fns # concat (map (entry_rows parse encodable fromisoformat ?fns rating_type asof)
                          (take n zip_entries))"
    unfolding run n(2) by simp
  moreover have "snd (ratings_to_csv parse encodable fromisoformat zip_entries rating_type asof) = None
        \<longrightarrow> n = length zip_entries"
    unfolding run using n(3) .
  ultimately show ?thesis
    using n(1) fieldnames_of_keys [of rating_type] row_of_cells [of ?fns]
    by (intro exI [of _ n] conjI allI) simp_all
qed

theorem csv_columns_short_tags_witness:
  "fst (ratings_to_csv parsed always iso_date sample_archive ''obligor'' None) =
     [fieldnames_of ''obligor'',
      [''ACME Ratings'', ''2023-01-01'', [], [], ''Obligor One'', [], [], [], [], [],
       [], ''BBB'', ''2022-06-01'', [], [], [], [], [], [], []],
      [''ACME Ratings'', ''2023-01-01'', [], [], ''Obligor One'', [], [], [], [], [],
       [], ''A'', ''2023-06-01'', [], [], [], [], [], [], []]] \<and>
   fieldnames_of ''obligor'' = keys AGENCY_FIELDS @ keys OBLIGOR_FIELDS @ keys RATING_FIELDS"
proof -
  from csv_columns_short_tags [where rating_type = "''obligor''" and encodable = always
      and parse = parsed and fromisoformat = iso_date and asof = None
      and zip_entries = sample_archive, OF obligor_valid always_fieldnames]
  obtain n where n:
    "fst (ratings_to_csv parsed always iso_date sample_archive ''obligor'' None) =
       fieldnames_of ''obligor''
       # concat (map (entry_rows parsed always iso_date (fieldnames_of ''obligor'') ''obligor'' None)
                  (take n sample_archive))"
    "snd (ratings_to_csv parsed always iso_date sample_archive ''obligor'' None) = None
       \<longrightarrow> n = length sample_archive"
    "fieldnames_of ''obligor'' =
       keys AGENCY_FIELDS @ keys (if ''obligor'' = ''obligor'' then OBLIGOR_FIELDS else ISSUER_FIELDS)
       @ keys RATING_FIELDS"
    by (elim exE conjE) (rule that; assumption)
  have "n = length sample_archive" using n(2) sample_run_completes by simp
  then show ?thesis
    using n(1,3) sample_archive_rows by simp
qed

text \<open>
  The file written for one obligor document: the header is \<open>RAN, FCD, ...\<close>, not
  \<open>rating_agency_name, file_creation_date, ...\<close>.
\<close>

theorem csv_columns_counterexample:
  "ratings_to_csv parsed always iso_date [(''b.xml'', Inr sample_document)] ''obligor'' None =
     ([[''RAN'', ''FCD'', ''OSC'', ''OIG'', ''OBNAME'', ''LEI'', ''CIK'', ''OI'', ''OIS'', ''OIOS'',
        ''IP'', ''R'', ''RAD'', ''RAC'', ''WST'', ''ROL'', ''OAN'', ''RT'', ''RST'', ''RTT''],
       [''ACME Ratings'', ''2023-01-01'', [], [], ''Obligor One'', [], [], [], [], [],
        [], ''BBB'', ''2022-06-01'', [], [], [], [], [], [], []],
       [''ACME Ratings'', ''2023-01-01'', [], [], ''Obligor One'', [], [], [], [], [],
        [], ''A'', ''2023-06-01'', [], [], [], [], [], [], []]], None) \<and>
   hd (fst (ratings_to_csv parsed always iso_date [(''b.xml'', Inr sample_document)] ''obligor'' None))
     \<noteq> dict_values AGENCY_FIELDS @ dict_values OBLIGOR_FIELDS @ dict_values RATING_FIELDS"
  by code_simp

text \<open>
  C10. When the entries before have been processed and the records of an entry are
  written, the first record with a key outside the field names raises \<open>ValueError\<close>
  after the rows of the records before it are in the file; the handler does not catch
  it, the run ends there and the entries after it are left unread. A record whose keys
  are all field names is written, with one cell for each field name and the empty
  string in the cell of every field name it lacks.
\<close>

theorem extra_key_aborts:
  assumes "rating_type = ''obligor'' \<or> rating_type = ''issuer''"
    and "encodable (fieldnames_of rating_type)"
    and "process_entries parse encodable fromisoformat (fieldnames_of rating_type) rating_type asof
           before [fieldnames_of rating_type] = (out, None)"
    and "endswith filename ''.xml''"
    and "parse bytes = Inr tree"
    and "xml_to_records fromisoformat tree rating_type asof = Inr (rs @ r # rs')"
    and "\<forall>r'\<in>set rs. set (keys r') \<subseteq> set (fieldnames_of rating_type)
            \<and> encodable (row_of (fieldnames_of rating_type) r')"
  shows "(\<not> set (keys r) \<subseteq> set (fieldnames_of rating_type) \<longrightarrow>
            ratings_to_csv parse encodable fromisoformat (before @ (filename, bytes) # rest) rating_type asof
              = (out @ map (row_of (fieldnames_of rating_type)) rs, Some ValueError)) \<and>
         (set (keys r) \<subseteq> set (fieldnames_of rating_type)
            \<and> encodable (row_of (fieldnames_of rating_type) r) \<longrightarrow>
            try_body parse encodable fromisoformat (fieldnames_of rating_type) rating_type asof bytes out
              = writerows encodable (fieldnames_of rating_type) rs'
                  (out @ map (row_of (fieldnames_of rating_type)) rs @ [row_of (fieldnames_of rating_type) r]) \<and>
            length (row_of (fieldnames_of rating_type) r) = length (fieldnames_of rating_type) \<and>
            (\<forall>i<length (fieldnames_of rating_type).
               fieldnames_of rating_type ! i \<notin> set (keys r) \<longrightarrow>
               row_of (fieldnames_of rating_type) r ! i = []))"
proof -
  let ?fns = "fieldnames_of rating_type"
  have body: "try_body parse encodable fromisoformat ?fns rating_type asof bytes out =
                writerows encodable ?fns (r # rs') (out @ map (row_of ?fns) rs)"
    using assms(5,6) writerows_prefix [OF assms(7), of "r # rs'" out]
    by (simp add: try_body_def)
  have abort: "ratings_to_csv parse encodable fromisoformat (before @ (filename, bytes) # rest) rating_type asof
              = (out @ map (row_of ?fns) rs, Some ValueError)"
    if "\<not> set (keys r) \<subseteq> set ?fns"
    unfolding ratings_to_csv_split [OF assms(1-3)]
    using assms(4) that by (simp add: body dict_to_list_row)
  have written: "try_body parse encodable fromisoformat ?fns rating_type asof bytes out
              = writerows encodable ?fns rs' (out @ map (row_of ?fns) rs @ [row_of ?fns r])"
    if "set (keys r) \<subseteq> set ?fns" "encodable (row_of ?fns r)"
    using that by (simp add: body dict_to_list_row)
  have empty: "\<forall>i<length ?fns. ?fns ! i \<notin> set (keys r) \<longrightarrow> row_of ?fns r ! i = []"
    by (simp add: row_of_def get_missing)
  show ?thesis
    using abort written empty by (simp add: row_of_def)
qed

theorem extra_key_aborts_witness:
  "ratings_to_csv parsed always iso_date
     ([] @ (''a.xml'', Inr extra_document) # [(''b.xml'', Inr sample_document)]) ''obligor'' None =
   ([obligor_header,
     [''ACME Ratings'', ''2023-01-01'', [], [], ''Obligor Two'', [], [], [], [], [],
      [], ''BB'', ''2022-01-10'', [], [], [], [], [], [], []]], Some ValueError)"
proof -
  have before: "process_entries parsed always iso_date (fieldnames_of ''obligor'') ''obligor'' None
           [] [fieldnames_of ''obligor''] = ([fieldnames_of ''obligor''], None)"
    by simp
  have p: "parsed (Inr extra_document) = Inr extra_document"
    by (simp add: parsed_def)
  from extra_key_aborts [where rating_type = "''obligor''" and encodable = always,
      OF obligor_valid always_fieldnames before xml_suffix p
      extra_document_records extra_document_first]
  have "ratings_to_csv parsed always iso_date
     ([] @ (''a.xml'', Inr extra_document) # [(''b.xml'', Inr sample_document)]) ''obligor'' None =
     ([fieldnames_of ''obligor''] @ map (row_of (fieldnames_of ''obligor''))
        [[(''R'', Some ''BB''), (''RAD'', Some ''2022-01-10''), (''OBNAME'', Some ''Obligor Two''),
          (''RAN'', Some ''ACME Ratings''), (''FCD'', Some ''2023-01-01'')]], Some ValueError)"
    using extra_document_second by blast
  then show ?thesis
    unfolding obligor_fieldnames extra_document_row .
qed

end
